theory Spec2Isabelle
  imports Main "HOL-Library.Word"
begin

section \<open>JavaScript strings\<close>

text \<open>
  A JavaScript string is a sequence of UTF-16 code units. A code unit is modelled as a
  natural number, a string as the list of its code units; \<open>js ''abc''\<close> is the
  string written with that literal in the source.
\<close>

type_synonym jsstring = "nat list"

abbreviation js :: "string \<Rightarrow> jsstring" where
  "js s \<equiv> map of_char s"

text \<open>
  Line terminators: the characters that \<open>.\<close> does not match and before which \<open>$\<close>
  matches under the \<open>m\<close> flag (LF, CR, LS, PS).
\<close>

definition is_line_terminator :: "nat \<Rightarrow> bool" where
  "is_line_terminator c = (c = 0x0A \<or> c = 0x0D \<or> c = 0x2028 \<or> c = 0x2029)"

text \<open>
  White space: the class \<open>\s\<close> of a regular expression, which is also the set of
  characters that \<open>String.prototype.trim\<close> strips (WhiteSpace and LineTerminator).
\<close>

definition is_space :: "nat \<Rightarrow> bool" where
  "is_space c =
     (c = 0x09 \<or> c = 0x0B \<or> c = 0x0C \<or> c = 0x20 \<or> c = 0xA0 \<or> c = 0x1680 \<or>
      (0x2000 \<le> c \<and> c \<le> 0x200A) \<or> c = 0x202F \<or> c = 0x205F \<or> c = 0x3000 \<or>
      c = 0xFEFF \<or> is_line_terminator c)"

text \<open>
  Case folding of the \<open>i\<close> flag (without the \<open>u\<close> flag): a code unit is compared
  through its upper-case form, and a code unit outside ASCII is never folded onto an
  ASCII one. Every pattern of this program is ASCII, so only \<open>a\<close>..\<open>z\<close> are folded.
\<close>

definition canonicalize :: "nat \<Rightarrow> nat" where
  "canonicalize c = (if 0x61 \<le> c \<and> c \<le> 0x7A then c - 0x20 else c)"

text \<open>
  \<open>toLowerCase\<close>, as far as this program uses it: it is applied to the text captured
  by \<open>(High|Medium|Low)\<close>, which consists of ASCII letters.
\<close>

definition toLowerCase :: "jsstring \<Rightarrow> jsstring" where
  "toLowerCase t = map (\<lambda>c. if 0x41 \<le> c \<and> c \<le> 0x5A then c + 0x20 else c) t"

definition trim :: "jsstring \<Rightarrow> jsstring" where
  "trim t = rev (dropWhile is_space (rev (dropWhile is_space t)))"

section \<open>The regular expressions of parseAIResponse\<close>

text \<open>
  A literal pattern matched case-insensitively at the start of the text: the result is
  the text that follows the match.
\<close>

fun match_ci :: "jsstring \<Rightarrow> jsstring \<Rightarrow> jsstring option" where
  "match_ci [] t = Some t"
| "match_ci (p # ps) [] = None"
| "match_ci (p # ps) (c # cs) =
     (if canonicalize c = canonicalize p then match_ci ps cs else None)"

text \<open>
  The greedy \<open>\s*\<close> followed by the rest \<open>k\<close> of a pattern: the matcher first lets
  \<open>\s*\<close> take the whole run of white space and gives back one character at a time as
  long as the rest of the pattern fails.
\<close>

fun spaces_then :: "(jsstring \<Rightarrow> 'a option) \<Rightarrow> jsstring \<Rightarrow> nat \<Rightarrow> 'a option" where
  "spaces_then k t 0 = k t"
| "spaces_then k t (Suc n) =
     (case k (drop (Suc n) t) of Some r \<Rightarrow> Some r | None \<Rightarrow> spaces_then k t n)"

definition greedy_spaces :: "(jsstring \<Rightarrow> 'a option) \<Rightarrow> jsstring \<Rightarrow> 'a option" where
  "greedy_spaces k t = spaces_then k t (length (takeWhile is_space t))"

text \<open>
  A pattern tried at every start position from left to right, the end of the text
  included; the first position that matches wins.
\<close>

fun search :: "(jsstring \<Rightarrow> 'a option) \<Rightarrow> jsstring \<Rightarrow> 'a option" where
  "search m [] = m []"
| "search m (c # cs) = (case m (c # cs) of Some r \<Rightarrow> Some r | None \<Rightarrow> search m cs)"

text \<open>The group \<open>(High|Medium|Low)\<close>: the alternatives in order; the result is the captured text.\<close>

definition level_at :: "jsstring \<Rightarrow> jsstring option" where
  "level_at t =
     (if match_ci (js ''High'') t \<noteq> None then Some (take 4 t)
      else if match_ci (js ''Medium'') t \<noteq> None then Some (take 6 t)
      else if match_ci (js ''Low'') t \<noteq> None then Some (take 3 t)
      else None)"

text \<open>
  The group \<open>(.+)\<close> at the end of a pattern: the longest run of characters other than
  line terminators, which must not be empty.
\<close>

definition dot_plus :: "jsstring \<Rightarrow> jsstring option" where
  "dot_plus t =
     (let run = takeWhile (\<lambda>c. \<not> is_line_terminator c) t
      in if run = [] then None else Some run)"

text \<open>\<open>text.match(/Confidence:\s*(High|Medium|Low)/i)\<close>: group 1 of the first match.\<close>

definition confidenceMatch :: "jsstring \<Rightarrow> jsstring option" where
  "confidenceMatch text =
     search (\<lambda>t. case match_ci (js ''Confidence:'') t of
                   None \<Rightarrow> None
                 | Some r \<Rightarrow> greedy_spaces level_at r) text"

text \<open>\<open>text.match(/Ask-Me-Back:\s*(.+)/i)\<close>: group 1 of the first match.\<close>

definition askMatch :: "jsstring \<Rightarrow> jsstring option" where
  "askMatch text =
     search (\<lambda>t. case match_ci (js ''Ask-Me-Back:'') t of
                   None \<Rightarrow> None
                 | Some r \<Rightarrow> greedy_spaces dot_plus r) text"

text \<open>
  \<open>text.replace(/<marker>.*$/im, '')\<close>: the first occurrence of the marker is removed
  together with the rest of its line. The greedy \<open>.*\<close> stops at a line terminator or at
  the end of the text, where \<open>$\<close> matches under the \<open>m\<close> flag, so the first attempt of
  the matcher succeeds. Without an occurrence the text is returned as it is.
\<close>

fun replace_marker_line :: "jsstring \<Rightarrow> jsstring \<Rightarrow> jsstring" where
  "replace_marker_line marker [] = []"
| "replace_marker_line marker (c # cs) =
     (case match_ci marker (c # cs) of
        Some r \<Rightarrow> dropWhile (\<lambda>c. \<not> is_line_terminator c) r
      | None \<Rightarrow> c # replace_marker_line marker cs)"

record ParsedResponse =
  parsed_content :: jsstring
  parsed_confidence :: "jsstring option"
  parsed_askBackQuestion :: "jsstring option"

definition parseAIResponse :: "jsstring \<Rightarrow> ParsedResponse" where
  "parseAIResponse text =
     (let confidenceMatch = confidenceMatch text;
          askMatch = askMatch text;
          confidence = map_option toLowerCase confidenceMatch;
          content = replace_marker_line (js ''Confidence:'') text;
          content = replace_marker_line (js ''Ask-Me-Back:'') content;
          askBackQuestion = map_option trim askMatch
      in \<lparr>parsed_content = trim content,
          parsed_confidence = confidence,
          parsed_askBackQuestion = askBackQuestion\<rparr>)"

subsection \<open>What the patterns mean\<close>

text \<open>
  The meaning of the patterns stated without a matcher, for comparison with the
  functions above: \<open>ci_equal p m\<close> says that \<open>m\<close> is the literal \<open>p\<close> up to the case
  of ASCII letters.
\<close>

definition ci_equal :: "jsstring \<Rightarrow> jsstring \<Rightarrow> bool" where
  "ci_equal p m = (map canonicalize m = map canonicalize p)"

definition occurs_ci :: "jsstring \<Rightarrow> jsstring \<Rightarrow> bool" where
  "occurs_ci p t = (\<exists>pre m post. t = pre @ m @ post \<and> ci_equal p m)"

definition confidence_pattern_matches :: "jsstring \<Rightarrow> bool" where
  "confidence_pattern_matches text =
     (\<exists>pre m ws lvl post. text = pre @ m @ ws @ lvl @ post \<and>
        ci_equal (js ''Confidence:'') m \<and> list_all is_space ws \<and>
        (ci_equal (js ''High'') lvl \<or> ci_equal (js ''Medium'') lvl \<or> ci_equal (js ''Low'') lvl))"

definition ask_pattern_matches :: "jsstring \<Rightarrow> bool" where
  "ask_pattern_matches text =
     (\<exists>pre m ws cap post. text = pre @ m @ ws @ cap @ post \<and>
        ci_equal (js ''Ask-Me-Back:'') m \<and> list_all is_space ws \<and>
        cap \<noteq> [] \<and> list_all (\<lambda>c. \<not> is_line_terminator c) cap)"

text \<open>
  \<open>marker_line_removed p t t'\<close>: \<open>t'\<close> is \<open>t\<close> without the leftmost occurrence of the
  marker \<open>p\<close> and the rest of the line that follows it; \<open>t' = t\<close> when the marker does
  not occur.
\<close>

definition marker_line_removed :: "jsstring \<Rightarrow> jsstring \<Rightarrow> jsstring \<Rightarrow> bool" where
  "marker_line_removed p t t' =
     ((\<not> occurs_ci p t \<and> t' = t) \<or>
      (\<exists>pre m line rest. t = pre @ m @ line @ rest \<and> ci_equal p m \<and>
         (\<forall>pre' m' post'. t = pre' @ m' @ post' \<and> ci_equal p m' \<longrightarrow> length pre \<le> length pre') \<and>
         list_all (\<lambda>c. \<not> is_line_terminator c) line \<and>
         (rest = [] \<or> is_line_terminator (hd rest)) \<and>
         t' = pre @ rest))"

text \<open>\<open>trimmed t t'\<close>: \<open>t'\<close> is \<open>t\<close> without its leading and trailing white space.\<close>

definition trimmed :: "jsstring \<Rightarrow> jsstring \<Rightarrow> bool" where
  "trimmed t t' =
     (\<exists>a b. t = a @ t' @ b \<and> list_all is_space a \<and> list_all is_space b \<and>
        (t' = [] \<or> (\<not> is_space (hd t') \<and> \<not> is_space (last t'))))"

section \<open>The undo-capable reset controller\<close>

text \<open>
  Modelled from the spec: the hook \<open>useResetWithUndo\<close> is imported from
  \<open>@/hooks/useResetWithUndo\<close>, which is not among the source files; only its call
  sites are. The record and the four operations below follow section 3
  (\<open>ResettableState<T>\<close>) and section 4.2 of the specification. Time is wall-clock
  milliseconds; the invocations of the \<open>onReset\<close> callback are logged in call order.
\<close>

record 'a ResettableState =
  current :: 'a
  snapshotBeforeReset :: "'a option"
  undoDeadline :: int
  onReset_calls :: "'a list"

text \<open>
  Modelled from the spec: the undo window of the absent hook. It is open exactly while a
  snapshot is retained and the deadline has not been reached.
\<close>

definition window_open :: "'a ResettableState \<Rightarrow> int \<Rightarrow> bool" where
  "window_open s now = (snapshotBeforeReset s \<noteq> None \<and> now < undoDeadline s)"

text \<open>
  Modelled from the spec: auto-expiry of the absent hook. Once the deadline has passed
  without \<open>undo\<close> or \<open>dismiss\<close>, the window closes silently and the snapshot is
  discarded.
\<close>

definition expire :: "int \<Rightarrow> 'a ResettableState \<Rightarrow> 'a ResettableState" where
  "expire now s =
     (if snapshotBeforeReset s \<noteq> None \<and> undoDeadline s \<le> now
      then s\<lparr>snapshotBeforeReset := None\<rparr> else s)"

text \<open>
  Modelled from the spec: \<open>reset(newValue)\<close> of the absent hook. It captures
  \<open>current\<close> into the snapshot (overwriting an earlier one), sets \<open>current\<close>,
  opens a window of \<open>timeout\<close> milliseconds and invokes \<open>onReset(newValue)\<close>.
\<close>

definition reset :: "int \<Rightarrow> int \<Rightarrow> 'a \<Rightarrow> 'a ResettableState \<Rightarrow> 'a ResettableState" where
  "reset now timeout newValue s =
     s\<lparr>snapshotBeforeReset := Some (current s),
       current := newValue,
       undoDeadline := now + timeout,
       onReset_calls := onReset_calls s @ [newValue]\<rparr>"

text \<open>
  Modelled from the spec: \<open>undo()\<close> of the absent hook. It is valid only while the
  window is open; then it restores the snapshot, closes the window and invokes
  \<open>onReset\<close> with the restored value. Otherwise it does nothing beyond the expiry
  that the elapsed time has caused.
\<close>

definition undo :: "int \<Rightarrow> 'a ResettableState \<Rightarrow> 'a ResettableState" where
  "undo now s =
     (let s' = expire now s in
      case snapshotBeforeReset s' of
        None \<Rightarrow> s'
      | Some a \<Rightarrow> s'\<lparr>current := a, snapshotBeforeReset := None,
                     onReset_calls := onReset_calls s' @ [a]\<rparr>)"

text \<open>
  Modelled from the spec: \<open>dismiss()\<close> of the absent hook. It closes the window
  without restoring.
\<close>

definition dismiss :: "'a ResettableState \<Rightarrow> 'a ResettableState" where
  "dismiss s = s\<lparr>snapshotBeforeReset := None\<rparr>"

text \<open>
  Modelled from the spec: the operations a caller can issue after a reset without
  resetting again, and their execution in order.
\<close>

datatype later_op = Undo int | Dismiss | Expire int

fun apply_later :: "later_op \<Rightarrow> 'a ResettableState \<Rightarrow> 'a ResettableState" where
  "apply_later (Undo now) s = undo now s"
| "apply_later Dismiss s = dismiss s"
| "apply_later (Expire now) s = expire now s"

fun run_later :: "later_op list \<Rightarrow> 'a ResettableState \<Rightarrow> 'a ResettableState" where
  "run_later [] s = s"
| "run_later (x # xs) s = run_later xs (apply_later x s)"

section \<open>Messages and the chat page\<close>

text \<open>The interface \<open>Message\<close> of the chat pages, with its two structured payloads.\<close>

datatype role = User | Assistant

datatype message_type = Normal | Concept | Weakness

record ConceptData =
  concept :: jsstring
  example :: jsstring
  takeaway :: jsstring
  topic :: "jsstring option"

record WeaknessData =
  weakAreas :: "jsstring list"
  whyWeak :: jsstring
  nextActions :: "jsstring list"
  weakness_confidence :: jsstring

record Message =
  role :: role
  content :: jsstring
  timestamp :: int
  confidence :: "jsstring option"
  askBackQuestion :: "jsstring option"
  type :: "message_type option"
  conceptData :: "ConceptData option"
  weaknessData :: "WeaknessData option"

text \<open>An object literal \<open>{role, content, timestamp, type}\<close>; the other fields are absent.\<close>

definition new_message :: "role \<Rightarrow> jsstring \<Rightarrow> int \<Rightarrow> message_type option \<Rightarrow> Message" where
  "new_message r c t ty =
     \<lparr>role = r, content = c, timestamp = t, confidence = None, askBackQuestion = None,
      type = ty, conceptData = None, weaknessData = None\<rparr>"

text \<open>The assistant message that every \<open>catch\<close> block of the chat handlers appends.\<close>

definition errorMessage :: "jsstring \<Rightarrow> int \<Rightarrow> Message" where
  "errorMessage error_message t =
     new_message Assistant
       (js ''Sorry, I encountered an error: '' @ error_message @ js ''. Please try again.'')
       t (Some Normal)"

subsection \<open>The state of ChatPage\<close>

text \<open>
  The streaming handler writes into a message object that the \<open>messages\<close> array
  shares with its copies, so message objects live in a store: \<open>heap\<close> maps a
  reference to the object, \<open>next_ref\<close> is the first reference not yet allocated, and
  the state variable \<open>messages\<close> is an array of references. \<open>in_flight\<close> is not a
  variable of the program: it counts the requests that a handler has started and whose
  \<open>finally\<close> block has not run yet.
\<close>

record ChatPage =
  heap :: "nat \<Rightarrow> Message"
  next_ref :: nat
  messages :: "nat list"
  input :: jsstring
  loading :: bool
  in_flight :: nat

text \<open>\<open>setMessages(prev => [...prev, m])\<close> for a freshly created object \<open>m\<close>.\<close>

definition append_message :: "Message \<Rightarrow> ChatPage \<Rightarrow> ChatPage" where
  "append_message m s =
     s\<lparr>heap := (heap s)(next_ref s := m),
       messages := messages s @ [next_ref s],
       next_ref := Suc (next_ref s)\<rparr>"

text \<open>
  The update of every chunk: the array is copied, its last element is looked up and,
  when it is an assistant message of type \<open>normal\<close>, its content is overwritten in
  place. On an empty array the last element is \<open>undefined\<close> and reading its \<open>role\<close>
  throws while the page renders.
\<close>

datatype js_error = TypeError jsstring

definition chunk_update :: "jsstring \<Rightarrow> ChatPage \<Rightarrow> js_error + ChatPage" where
  "chunk_update accumulatedContent s =
     (if messages s = [] then Inl (TypeError (js ''Cannot read properties of undefined''))
      else let lastMsg = last (messages s) in
        if role (heap s lastMsg) = Assistant \<and> type (heap s lastMsg) = Some Normal
        then Inr (s\<lparr>heap := (heap s)(lastMsg := (heap s lastMsg)\<lparr>content := accumulatedContent\<rparr>)\<rparr>)
        else Inr s)"

text \<open>The update after the stream has ended: the parsed fields are written into the last message.\<close>

definition final_update :: "ParsedResponse \<Rightarrow> ChatPage \<Rightarrow> js_error + ChatPage" where
  "final_update parsed s =
     (if messages s = [] then Inl (TypeError (js ''Cannot read properties of undefined''))
      else let lastMsg = last (messages s) in
        if role (heap s lastMsg) = Assistant
        then Inr (s\<lparr>heap := (heap s)(lastMsg := (heap s lastMsg)
                    \<lparr>content := parsed_content parsed,
                     confidence := parsed_confidence parsed,
                     askBackQuestion := parsed_askBackQuestion parsed\<rparr>)\<rparr>)
        else Inr s)"

subsection \<open>The completion stream\<close>

text \<open>
  The body of the response is read chunk by chunk. A stream that ends delivers finitely
  many chunks of bytes and then either reports \<open>done\<close> or fails. The \<open>TextDecoder\<close> is
  a parameter: a function from its state and a chunk (\<open>None\<close> for the \<open>undefined\<close>
  value of the last read) to the decoded text and its next state.
\<close>

type_synonym bytes = "8 word list"

datatype stream_end = Done | ReadFailed jsstring

type_synonym 'd decoder = "'d \<Rightarrow> bytes option \<Rightarrow> jsstring \<times> 'd"

datatype loop_result =
    LoopDone jsstring ChatPage
  | LoopThrown jsstring ChatPage
  | LoopRenderError js_error

text \<open>
  The loop \<open>while (!done)\<close>: every read appends the decoded chunk to
  \<open>accumulatedContent\<close> and updates the last message, the read that reports \<open>done\<close>
  included. A read that rejects leaves the loop with an exception.
\<close>

fun read_loop :: "'d decoder \<Rightarrow> 'd \<Rightarrow> bytes list \<Rightarrow> stream_end \<Rightarrow> jsstring \<Rightarrow> ChatPage \<Rightarrow> loop_result" where
  "read_loop decode d [] Done accumulatedContent s =
     (let (chunkValue, d') = decode d None;
          accumulatedContent = accumulatedContent @ chunkValue
      in case chunk_update accumulatedContent s of
           Inl e \<Rightarrow> LoopRenderError e
         | Inr s' \<Rightarrow> LoopDone accumulatedContent s')"
| "read_loop decode d [] (ReadFailed e) accumulatedContent s = LoopThrown e s"
| "read_loop decode d (value # rest) ending accumulatedContent s =
     (let (chunkValue, d') = decode d (Some value);
          accumulatedContent = accumulatedContent @ chunkValue
      in case chunk_update accumulatedContent s of
           Inl e \<Rightarrow> LoopRenderError e
         | Inr s' \<Rightarrow> read_loop decode d' rest ending accumulatedContent s')"

text \<open>The chunks as the decoder yields them, in delivery order (the last read included).\<close>

fun decoded_chunks :: "'d decoder \<Rightarrow> 'd \<Rightarrow> bytes list \<Rightarrow> jsstring list" where
  "decoded_chunks decode d [] = [fst (decode d None)]"
| "decoded_chunks decode d (value # rest) =
     fst (decode d (Some value)) # decoded_chunks decode (snd (decode d (Some value))) rest"

subsection \<open>handleSend of ChatPage\<close>

text \<open>
  What the environment does during one call: whether saving a conversation row throws,
  how the request to \<open>/api/chat\<close> ends, and the clock readings of the three
  \<open>new Date()\<close>. A response that is not \<open>ok\<close> carries either the error of a body that
  is not JSON or the \<open>error\<close> field of the parsed body.
\<close>

datatype fetch_outcome =
    FetchRejected jsstring
  | NotOk "jsstring + jsstring option"
  | NoBody
  | Streaming "bytes list" stream_end

record send_env =
  save_user :: "jsstring option"
  fetch :: fetch_outcome
  save_ai :: "jsstring option"
  t_user :: int
  t_assistant :: int
  t_error :: int

datatype handler_result =
    Completed ChatPage
  | Rejected jsstring ChatPage
  | RenderError js_error

text \<open>The \<open>catch\<close> block followed by the \<open>finally\<close> block.\<close>

definition catch_finally :: "send_env \<Rightarrow> jsstring \<Rightarrow> ChatPage \<Rightarrow> handler_result" where
  "catch_finally env error_message s =
     Completed ((append_message (errorMessage error_message (t_error env)) s)
                  \<lparr>loading := False, in_flight := in_flight s - 1\<rparr>)"

text \<open>The \<open>try\<close> statement of \<open>handleSend\<close>, from the request to the \<open>finally\<close> block.\<close>

definition handleSend_settle :: "'d decoder \<Rightarrow> 'd \<Rightarrow> send_env \<Rightarrow> ChatPage \<Rightarrow> handler_result" where
  "handleSend_settle decode d env s =
     (case fetch env of
        FetchRejected e \<Rightarrow> catch_finally env e s
      | NotOk (Inl e) \<Rightarrow> catch_finally env e s
      | NotOk (Inr data_error) \<Rightarrow>
          catch_finally env
            (case data_error of
               None \<Rightarrow> js ''Failed to get response''
             | Some e \<Rightarrow> if e = [] then js ''Failed to get response'' else e) s
      | NoBody \<Rightarrow> catch_finally env (js ''No response body'') s
      | Streaming chunks ending \<Rightarrow>
          (let assistantMessage = new_message Assistant [] (t_assistant env) (Some Normal);
               s = append_message assistantMessage s
           in case read_loop decode d chunks ending [] s of
                LoopRenderError e \<Rightarrow> RenderError e
              | LoopThrown e s \<Rightarrow> catch_finally env e s
              | LoopDone accumulatedContent s \<Rightarrow>
                  (let parsed = parseAIResponse accumulatedContent
                   in case final_update parsed s of
                        Inl e \<Rightarrow> RenderError e
                      | Inr s \<Rightarrow>
                          (case save_ai env of
                             Some e \<Rightarrow> catch_finally env e s
                           | None \<Rightarrow> Completed (s\<lparr>loading := False,
                                                   in_flight := in_flight s - 1\<rparr>)))))"

text \<open>
  The part of \<open>handleSend\<close> before the request: the guard, the user message, and the
  clearing of the input. A handler is a closure of the render that created it:
  \<open>input\<close> and \<open>loading\<close> are constants of that render, read here from the state
  \<open>render\<close> that the page had then, while the setters (and the updater function
  passed to \<open>setMessages\<close>) act on the state \<open>s\<close> that the page has when the handler
  runs. For a handler that an event of the page calls, the two are the same state.
\<close>

definition handleSend_guard :: "ChatPage \<Rightarrow> bool" where
  "handleSend_guard render = (trim (input render) = [] \<or> loading render)"

definition handleSend_begin :: "send_env \<Rightarrow> ChatPage \<Rightarrow> ChatPage \<Rightarrow> ChatPage" where
  "handleSend_begin env render s =
     (let userMessage = new_message User (input render) (t_user env) None
      in (append_message userMessage s)
           \<lparr>input := [], loading := True, in_flight := Suc (in_flight s)\<rparr>)"

definition handleSend :: "'d decoder \<Rightarrow> 'd \<Rightarrow> send_env \<Rightarrow> ChatPage \<Rightarrow> ChatPage \<Rightarrow> handler_result" where
  "handleSend decode d env render s =
     (if handleSend_guard render then Completed s
      else let s = handleSend_begin env render s
           in case save_user env of
                Some e \<Rightarrow> Rejected e s
              | None \<Rightarrow> handleSend_settle decode d env s)"

text \<open>The \<open>disabled\<close> attribute of the submit button.\<close>

definition submit_disabled :: "ChatPage \<Rightarrow> bool" where
  "submit_disabled s = (loading s \<or> trim (input s) = [])"

subsection \<open>The other handlers of ChatPage\<close>

text \<open>
  A request whose response is read with \<open>response.json()\<close>: the fetch rejects, the
  body is not JSON, or the body is an object with its \<open>error\<close> field and the fields
  the handler reads. \<open>if (data.error)\<close> holds for a field that is present and not the
  empty string.
\<close>

definition error_field :: "jsstring option \<Rightarrow> jsstring option" where
  "error_field data_error =
     (case data_error of None \<Rightarrow> None | Some e \<Rightarrow> if e = [] then None else Some e)"

datatype 'a json_fetch =
    FetchThrows jsstring
  | JsonThrows jsstring
  | Body "jsstring option" 'a

text \<open>\<open>[...messages].reverse().find(m => m.role === 'user')?.content\<close>\<close>

definition lastUserMessage_content :: "ChatPage \<Rightarrow> jsstring option" where
  "lastUserMessage_content s =
     (case filter (\<lambda>r. role (heap s r) = User) (rev (messages s)) of
        [] \<Rightarrow> None
      | r # _ \<Rightarrow> Some (content (heap s r)))"

definition concept_topic :: "ChatPage \<Rightarrow> jsstring" where
  "concept_topic s =
     (let tp = trim (input s)
      in if tp = [] \<and> messages s \<noteq> []
         then (case lastUserMessage_content s of
                 None \<Rightarrow> js ''current topic''
               | Some c \<Rightarrow> if c = [] then js ''current topic'' else c)
         else tp)"

text \<open>
  \<open>handle2MinConcept\<close> up to its request: without a topic it appends a notice, while
  a request is outstanding it returns, otherwise it sets \<open>loading\<close>.
\<close>

definition handle2MinConcept_begin :: "int \<Rightarrow> ChatPage \<Rightarrow> ChatPage" where
  "handle2MinConcept_begin t s =
     (let tp = concept_topic s
      in if tp = []
         then append_message
                (new_message Assistant
                   (js ''Please type a topic or question first, then click '' @ [0x22] @
                    js ''Explain in 2 Minutes'' @ [0x22]) t (Some Normal)) s
         else if loading s then s
         else s\<lparr>loading := True, in_flight := Suc (in_flight s)\<rparr>)"

text \<open>The \<open>try\<close> statement of a handler that appends one structured message.\<close>

definition settle_json :: "(int \<Rightarrow> 'a \<Rightarrow> Message) \<Rightarrow> int \<Rightarrow> int \<Rightarrow> 'a json_fetch \<Rightarrow> ChatPage \<Rightarrow> ChatPage" where
  "settle_json build t t_err outcome s =
     (let failed = (\<lambda>e. (append_message (errorMessage e t_err) s)
                          \<lparr>loading := False, in_flight := in_flight s - 1\<rparr>)
      in case outcome of
           FetchThrows e \<Rightarrow> failed e
         | JsonThrows e \<Rightarrow> failed e
         | Body data_error data \<Rightarrow>
             (case error_field data_error of
                Some e \<Rightarrow> failed e
              | None \<Rightarrow> (append_message (build t data) s)
                          \<lparr>loading := False, in_flight := in_flight s - 1\<rparr>))"

definition conceptMessage :: "jsstring \<Rightarrow> int \<Rightarrow> jsstring \<times> jsstring \<times> jsstring \<Rightarrow> Message" where
  "conceptMessage tp t data =
     (new_message Assistant [] t (Some Concept))
       \<lparr>conceptData := Some \<lparr>concept = fst data, example = fst (snd data),
                             takeaway = snd (snd data), topic = Some tp\<rparr>\<rparr>"

definition weaknessMessage :: "int \<Rightarrow> WeaknessData \<Rightarrow> Message" where
  "weaknessMessage t data = (new_message Assistant [] t (Some Weakness))\<lparr>weaknessData := Some data\<rparr>"

definition handleWeaknessAnalysis_begin :: "ChatPage \<Rightarrow> ChatPage" where
  "handleWeaknessAnalysis_begin s =
     (if loading s \<or> messages s = [] then s
      else s\<lparr>loading := True, in_flight := Suc (in_flight s)\<rparr>)"

text \<open>\<open>setMessages\<close> with an array of freshly created objects (\<open>loadUserMemory\<close>).\<close>

fun set_fresh_messages :: "Message list \<Rightarrow> ChatPage \<Rightarrow> ChatPage" where
  "set_fresh_messages ms s = fold append_message ms (s\<lparr>messages := []\<rparr>)"

text \<open>
  The events of the page in which the handler of the latest render is called (a click,
  a key, a submit). A handler that awaits a response is two events: its start, and the
  arrival of the response, which is possible only while a request is in flight. The
  callback \<open>onReset\<close> of the reset hook sets the input and the messages to the state
  that the hook passes; \<open>handleNewChat\<close> clears both.
\<close>

datatype 'd event =
    SetInput jsstring
  | LoadUserMemory "Message list"
  | Send send_env
  | SendSettles "'d decoder" 'd send_env
  | TwoMinConcept int
  | TwoMinConceptSettles jsstring int int "(jsstring \<times> jsstring \<times> jsstring) json_fetch"
  | WeaknessAnalysis
  | WeaknessAnalysisSettles int int "WeaknessData json_fetch"
  | NewChat
  | OnReset jsstring "nat list"

fun step :: "'d event \<Rightarrow> ChatPage \<Rightarrow> ChatPage option" where
  "step (SetInput v) s = Some (s\<lparr>input := v\<rparr>)"
| "step (LoadUserMemory ms) s = Some (if ms = [] then s else set_fresh_messages ms s)"
| "step (Send env) s =
     (if handleSend_guard s then Some s else Some (handleSend_begin env s s))"
| "step (SendSettles decode d env) s =
     (if in_flight s = 0 then None
      else case handleSend_settle decode d env s of
             Completed s' \<Rightarrow> Some s'
           | Rejected e s' \<Rightarrow> None
           | RenderError e \<Rightarrow> None)"
| "step (TwoMinConcept t) s = Some (handle2MinConcept_begin t s)"
| "step (TwoMinConceptSettles tp t t_err outcome) s =
     (if in_flight s = 0 then None
      else Some (settle_json (conceptMessage tp) t t_err outcome s))"
| "step WeaknessAnalysis s = Some (handleWeaknessAnalysis_begin s)"
| "step (WeaknessAnalysisSettles t t_err outcome) s =
     (if in_flight s = 0 then None
      else Some (settle_json weaknessMessage t t_err outcome s))"
| "step NewChat s = Some (s\<lparr>messages := [], input := []\<rparr>)"
| "step (OnReset i ms) s = Some (s\<lparr>input := i, messages := ms\<rparr>)"

fun run :: "'d event list \<Rightarrow> ChatPage \<Rightarrow> ChatPage option" where
  "run [] s = Some s"
| "run (e # es) s = (case step e s of None \<Rightarrow> None | Some s' \<Rightarrow> run es s')"

subsection \<open>Voice input and its deferred send\<close>

text \<open>
  \<open>analyzeIntent\<close>. The text is lower-cased and searched for the patterns of each
  list in turn. The patterns are ASCII, so of \<open>toLowerCase\<close> only its effect on ASCII
  code units matters: it is that of \<open>A\<close>..\<open>Z\<close> and of the two other letters whose
  lower case contains an ASCII letter (U+0130 and U+212A).
\<close>

datatype intent = Greeting | Study | Stress | Command

definition lowerText :: "jsstring \<Rightarrow> jsstring" where
  "lowerText t =
     concat (map (\<lambda>c. if 0x41 \<le> c \<and> c \<le> 0x5A then [c + 0x20]
                       else if c = 0x130 then [0x69, 0x307]
                       else if c = 0x212A then [0x6B]
                       else [c]) t)"

text \<open>\<open>String.prototype.includes\<close>\<close>

fun js_includes :: "jsstring \<Rightarrow> jsstring \<Rightarrow> bool" where
  "js_includes [] pattern = (pattern = [])"
| "js_includes (c # cs) pattern =
     (take (length pattern) (c # cs) = pattern \<or> js_includes cs pattern)"

definition analyzeIntent :: "jsstring \<Rightarrow> intent" where
  "analyzeIntent t =
     (let lowerText = lowerText t;
          greetingPatterns = [js ''hi'', js ''hello'', js ''hey'', js ''namaste'', js ''kaise ho'',
                              js ''kya haal'', js ''sup'', js ''yo''];
          commandPatterns = [js ''explain in 2 minutes'', js ''analyze'', js ''bana de'',
                             js ''fix kar'', js ''short me''];
          stressPatterns = [js ''samajh nahi'', js ''confused'', js ''darr'', js ''tension'',
                            js ''yaad nahi'', js ''marks kam'']
      in if list_ex (js_includes lowerText) greetingPatterns then Greeting
         else if list_ex (js_includes lowerText) commandPatterns then Command
         else if list_ex (js_includes lowerText) stressPatterns then Stress
         else Study)"

text \<open>
  A run of the page with its timers. \<open>handleVoiceTranscript\<close> sets the input to the
  processed transcript (\<open>processVoice\<close> belongs to the language hook and is given by
  the event) and, for a greeting or a command, passes to \<open>setTimeout\<close> a function that
  calls \<open>handleSend\<close>: the \<open>handleSend\<close> of the render in which
  \<open>handleVoiceTranscript\<close> was created. A timer is therefore the state of the page at
  that render. When it fires, that closure runs on the state the page has by then.
\<close>

record PageRun =
  page :: ChatPage
  timers :: "ChatPage list"

datatype 'd run_event =
    Latest "'d event"
  | VoiceTranscript jsstring jsstring
  | TimerFires nat send_env

fun run_step :: "'d run_event \<Rightarrow> PageRun \<Rightarrow> PageRun option" where
  "run_step (Latest e) pr =
     (case step e (page pr) of None \<Rightarrow> None | Some s' \<Rightarrow> Some (pr\<lparr>page := s'\<rparr>))"
| "run_step (VoiceTranscript transcript voiceResult_text) pr =
     (if trim transcript = [] then Some pr
      else Some (pr\<lparr>page := (page pr)\<lparr>input := voiceResult_text\<rparr>,
                   timers := timers pr @
                     (if analyzeIntent transcript = Greeting \<or> analyzeIntent transcript = Command
                      then [page pr] else [])\<rparr>))"
| "run_step (TimerFires i env) pr =
     (if i < length (timers pr)
      then Some (pr\<lparr>page := (if handleSend_guard (timers pr ! i) then page pr
                               else handleSend_begin env (timers pr ! i) (page pr)),
                   timers := take i (timers pr) @ drop (Suc i) (timers pr)\<rparr>)
      else None)"

fun runs :: "'d run_event list \<Rightarrow> PageRun \<Rightarrow> PageRun option" where
  "runs [] pr = Some pr"
| "runs (e # es) pr = (case run_step e pr of None \<Rightarrow> None | Some pr' \<Rightarrow> runs es pr')"

definition requests_in_flight :: "PageRun option \<Rightarrow> nat" where
  "requests_in_flight r = (case r of None \<Rightarrow> 0 | Some pr \<Rightarrow> in_flight (page pr))"

definition is_loading :: "PageRun option \<Rightarrow> bool" where
  "is_loading r = (case r of None \<Rightarrow> False | Some pr \<Rightarrow> loading (page pr))"

definition user_texts :: "PageRun option \<Rightarrow> jsstring list" where
  "user_texts r =
     (case r of
        None \<Rightarrow> []
      | Some pr \<Rightarrow> map (\<lambda>m. content (heap (page pr) m))
                     (filter (\<lambda>m. role (heap (page pr) m) = User) (messages (page pr))))"

text \<open>The invariant of the page: at most one request is in flight, and \<open>loading\<close> says whether one is.\<close>

definition one_request :: "ChatPage \<Rightarrow> bool" where
  "one_request s = (in_flight s \<le> 1 \<and> (loading s \<longleftrightarrow> in_flight s = 1))"

text \<open>
  Every message object is created by the handler that appends it, so the references of
  the array are allocated and pairwise distinct.
\<close>

definition wf_page :: "ChatPage \<Rightarrow> bool" where
  "wf_page s = (distinct (messages s) \<and> (\<forall>r\<in>set (messages s). r < next_ref s))"

subsection \<open>A concrete page, decoder and stream\<close>

text \<open>
  An empty page with a question typed in, a decoder for ASCII bytes (one code unit per
  byte, nothing held back between chunks), and a bytes literal.
\<close>

definition blank_page :: "jsstring \<Rightarrow> ChatPage" where
  "blank_page typed =
     \<lparr>heap = (\<lambda>_. new_message User [] 0 None), next_ref = 0, messages = [],
      input = typed, loading = False, in_flight = 0\<rparr>"

definition ascii_decoder :: "unit decoder" where
  "ascii_decoder d value = (case value of None \<Rightarrow> [] | Some b \<Rightarrow> map unat b, d)"

abbreviation ascii :: "string \<Rightarrow> bytes" where
  "ascii s \<equiv> map of_char s"

definition streaming_env :: "bytes list \<Rightarrow> stream_end \<Rightarrow> send_env" where
  "streaming_env chunks ending =
     \<lparr>save_user = None, fetch = Streaming chunks ending, save_ai = None,
      t_user = 1, t_assistant = 2, t_error = 3\<rparr>"

section \<open>The chat page with history\<close>

text \<open>
  The state of \<open>ChatPageWithHistory\<close>. This page never writes into a message object,
  so its \<open>messages\<close> array is a list of values. Its state variables \<open>messages\<close>,
  \<open>input\<close> and \<open>loading\<close> carry the prefix \<open>hist_\<close> here, apart from the variables
  of the other page. \<open>user\<close> and \<open>supabase\<close> say whether a user is signed in and
  whether the store client is configured. \<open>generateTitle_calls\<close> is not a variable of
  the program: it records the arguments of every call of \<open>generateTitle\<close>.
\<close>

record HistoryPage =
  hist_messages :: "Message list"
  hist_input :: jsstring
  hist_loading :: bool
  currentSessionId :: jsstring
  currentTitle :: jsstring
  hasGeneratedTitle :: bool
  user :: bool
  supabase :: bool
  generateTitle_calls :: "(jsstring \<times> nat) list"

text \<open>
  \<open>autoGenerateTitle\<close>. The function \<open>generateTitle\<close> is imported from the history
  utilities and is a parameter: it returns a title or throws, and what it throws is
  caught and logged. Saving the title to the store changes no state of the page.
\<close>

definition autoGenerateTitle :: "(jsstring \<Rightarrow> nat \<Rightarrow> jsstring + jsstring) \<Rightarrow> HistoryPage \<Rightarrow> HistoryPage" where
  "autoGenerateTitle generateTitle s =
     (if \<not> user s \<or> \<not> supabase s \<or> length (hist_messages s) < 2 then s
      else case find (\<lambda>m. role m = User) (hist_messages s) of
             None \<Rightarrow> s
           | Some firstUserMessage \<Rightarrow>
               (let s = s\<lparr>generateTitle_calls :=
                            generateTitle_calls s @ [(content firstUserMessage, 7)]\<rparr>
                in case generateTitle (content firstUserMessage) 7 of
                     Inl e \<Rightarrow> s
                   | Inr title \<Rightarrow> s\<lparr>currentTitle := title\<rparr>))"

text \<open>The effect that runs after every change of \<open>messages\<close>.\<close>

definition title_effect :: "(jsstring \<Rightarrow> nat \<Rightarrow> jsstring + jsstring) \<Rightarrow> HistoryPage \<Rightarrow> HistoryPage" where
  "title_effect generateTitle s =
     (if length (hist_messages s) \<ge> 2 \<and> \<not> hasGeneratedTitle s \<and> user s
      then autoGenerateTitle generateTitle (s\<lparr>hasGeneratedTitle := True\<rparr>)
      else s)"

text \<open>\<open>setMessages(updater)\<close>, the render that follows, and the effect of that render.\<close>

definition setMessages :: "(jsstring \<Rightarrow> nat \<Rightarrow> jsstring + jsstring) \<Rightarrow> (Message list \<Rightarrow> Message list) \<Rightarrow> HistoryPage \<Rightarrow> HistoryPage" where
  "setMessages generateTitle updater s =
     title_effect generateTitle (s\<lparr>hist_messages := updater (hist_messages s)\<rparr>)"

text \<open>
  \<open>handleSend\<close> of this page up to its request, and from the response on. The
  response is read with \<open>response.json()\<close>; the handler reads the fields \<open>error\<close> and
  \<open>response\<close> of the body. A body without \<open>response\<close> makes \<open>parseAIResponse\<close> read
  \<open>match\<close> of \<open>undefined\<close>, which throws inside the \<open>try\<close> block.
\<close>

definition hist_handleSend_begin :: "(jsstring \<Rightarrow> nat \<Rightarrow> jsstring + jsstring) \<Rightarrow> int \<Rightarrow> HistoryPage \<Rightarrow> HistoryPage" where
  "hist_handleSend_begin generateTitle t s =
     (if trim (hist_input s) = [] \<or> hist_loading s then s
      else let userMessage = new_message User (hist_input s) t None
           in (setMessages generateTitle (\<lambda>prev. prev @ [userMessage]) s)
                \<lparr>hist_input := [], hist_loading := True\<rparr>)"

definition hist_reply :: "int \<Rightarrow> int \<Rightarrow> jsstring option json_fetch \<Rightarrow> Message" where
  "hist_reply t t_err outcome =
     (case outcome of
        FetchThrows e \<Rightarrow> errorMessage e t_err
      | JsonThrows e \<Rightarrow> errorMessage e t_err
      | Body data_error data_response \<Rightarrow>
          (case error_field data_error of
             Some e \<Rightarrow> errorMessage e t_err
           | None \<Rightarrow>
               (case data_response of
                  None \<Rightarrow> errorMessage
                            (js ''Cannot read properties of undefined (reading '' @ [0x27] @
                             js ''match'' @ [0x27] @ js '')'') t_err
                | Some response \<Rightarrow>
                    (let parsed = parseAIResponse response
                     in (new_message Assistant (parsed_content parsed) t (Some Normal))
                          \<lparr>confidence := parsed_confidence parsed,
                           askBackQuestion := parsed_askBackQuestion parsed\<rparr>))))"

definition hist_handleSend_arrive :: "(jsstring \<Rightarrow> nat \<Rightarrow> jsstring + jsstring) \<Rightarrow> int \<Rightarrow> int \<Rightarrow> jsstring option json_fetch \<Rightarrow> HistoryPage \<Rightarrow> HistoryPage" where
  "hist_handleSend_arrive generateTitle t t_err outcome s =
     (setMessages generateTitle (\<lambda>prev. prev @ [hist_reply t t_err outcome]) s)
       \<lparr>hist_loading := False\<rparr>"

text \<open>
  The state updates of \<open>handleNewChat\<close>, which \<open>handleResetChat\<close> and
  \<open>handleDeleteAllChats\<close> perform as well once the user has confirmed: a new session
  id, an empty transcript, the default title, and the one-shot flag cleared.
\<close>

definition rotate_session :: "(jsstring \<Rightarrow> nat \<Rightarrow> jsstring + jsstring) \<Rightarrow> jsstring \<Rightarrow> HistoryPage \<Rightarrow> HistoryPage" where
  "rotate_session generateTitle newSessionId s =
     (setMessages generateTitle (\<lambda>prev. [])
        (s\<lparr>currentSessionId := newSessionId\<rparr>))
       \<lparr>hist_input := [], currentTitle := js ''New Chat'', hasGeneratedTitle := False\<rparr>"

text \<open>
  \<open>handle2MinConcept\<close> of this page, up to its request and from the response on: the
  same statements as on the other page, over a list of values.
\<close>

definition hist_concept_topic :: "HistoryPage \<Rightarrow> jsstring" where
  "hist_concept_topic s =
     (let tp = trim (hist_input s)
      in if tp = [] \<and> hist_messages s \<noteq> []
         then (case find (\<lambda>m. role m = User) (rev (hist_messages s)) of
                 None \<Rightarrow> js ''current topic''
               | Some m \<Rightarrow> if content m = [] then js ''current topic'' else content m)
         else tp)"

definition hist_handle2MinConcept_begin :: "(jsstring \<Rightarrow> nat \<Rightarrow> jsstring + jsstring) \<Rightarrow> int \<Rightarrow> HistoryPage \<Rightarrow> HistoryPage" where
  "hist_handle2MinConcept_begin generateTitle t s =
     (let tp = hist_concept_topic s
      in if tp = []
         then setMessages generateTitle
                (\<lambda>prev. prev @ [new_message Assistant
                   (js ''Please type a topic or question first, then click '' @ [0x22] @
                    js ''Explain in 2 Minutes'' @ [0x22]) t (Some Normal)]) s
         else if hist_loading s then s
         else s\<lparr>hist_loading := True\<rparr>)"

definition hist_handle2MinConcept_arrive :: "(jsstring \<Rightarrow> nat \<Rightarrow> jsstring + jsstring) \<Rightarrow> jsstring \<Rightarrow> int \<Rightarrow> int \<Rightarrow> (jsstring \<times> jsstring \<times> jsstring) json_fetch \<Rightarrow> HistoryPage \<Rightarrow> HistoryPage" where
  "hist_handle2MinConcept_arrive generateTitle tp t t_err outcome s =
     (let reply = (case outcome of
                     FetchThrows e \<Rightarrow> errorMessage e t_err
                   | JsonThrows e \<Rightarrow> errorMessage e t_err
                   | Body data_error data \<Rightarrow>
                       (case error_field data_error of
                          Some e \<Rightarrow> errorMessage e t_err
                        | None \<Rightarrow> conceptMessage tp t data))
      in (setMessages generateTitle (\<lambda>prev. prev @ [reply]) s)\<lparr>hist_loading := False\<rparr>)"

text \<open>
  \<open>loadCurrentSession\<close> from the answer of the store on: it runs when the user or the
  session id has changed, and does nothing without a user or a store client. A stored
  item replaces the transcript and sets the flag when it has a title; no item, or an
  item without messages, gives the empty session. A failing query is logged.
\<close>

datatype history_item = QueryThrows | NoItem | Item "Message list" "jsstring option"

definition loadCurrentSession_done :: "(jsstring \<Rightarrow> nat \<Rightarrow> jsstring + jsstring) \<Rightarrow> history_item \<Rightarrow> HistoryPage \<Rightarrow> HistoryPage" where
  "loadCurrentSession_done generateTitle item s =
     (if \<not> user s \<or> \<not> supabase s then s
      else case item of
             QueryThrows \<Rightarrow> s
           | Item msgs title \<Rightarrow>
               setMessages generateTitle (\<lambda>prev. msgs)
                 (s\<lparr>currentTitle := (case title of
                                         None \<Rightarrow> js ''Untitled Chat''
                                       | Some t \<Rightarrow> if t = [] then js ''Untitled Chat'' else t),
                    hasGeneratedTitle := (title \<noteq> None \<and> title \<noteq> Some [])\<rparr>)
           | NoItem \<Rightarrow>
               setMessages generateTitle (\<lambda>prev. [])
                 (s\<lparr>currentTitle := js ''New Chat'', hasGeneratedTitle := False\<rparr>))"

text \<open>The state updates of \<open>handleSelectChat\<close>; the loads that follow it are events of their own.\<close>

definition handleSelectChat :: "jsstring \<Rightarrow> jsstring \<Rightarrow> HistoryPage \<Rightarrow> HistoryPage" where
  "handleSelectChat sessionId title s =
     s\<lparr>currentSessionId := sessionId, currentTitle := title, hasGeneratedTitle := True\<rparr>"

text \<open>The events of this page, and a run of events in order.\<close>

datatype hist_event =
    HistSetInput jsstring
  | HistSend int
  | HistSendArrives int int "jsstring option json_fetch"
  | HistNewChat jsstring
  | HistResetChat jsstring
  | HistDeleteAllChats jsstring
  | HistTwoMinConcept int
  | HistTwoMinConceptArrives jsstring int int "(jsstring \<times> jsstring \<times> jsstring) json_fetch"
  | HistSelectChat jsstring jsstring
  | HistSessionLoaded history_item

fun hist_step :: "(jsstring \<Rightarrow> nat \<Rightarrow> jsstring + jsstring) \<Rightarrow> hist_event \<Rightarrow> HistoryPage \<Rightarrow> HistoryPage" where
  "hist_step g (HistSetInput v) s = s\<lparr>hist_input := v\<rparr>"
| "hist_step g (HistSend t) s = hist_handleSend_begin g t s"
| "hist_step g (HistSendArrives t t_err outcome) s = hist_handleSend_arrive g t t_err outcome s"
| "hist_step g (HistNewChat newSessionId) s = rotate_session g newSessionId s"
| "hist_step g (HistResetChat newSessionId) s = rotate_session g newSessionId s"
| "hist_step g (HistDeleteAllChats newSessionId) s = rotate_session g newSessionId s"
| "hist_step g (HistTwoMinConcept t) s = hist_handle2MinConcept_begin g t s"
| "hist_step g (HistTwoMinConceptArrives tp t t_err outcome) s =
     hist_handle2MinConcept_arrive g tp t t_err outcome s"
| "hist_step g (HistSelectChat sessionId title) s = handleSelectChat sessionId title s"
| "hist_step g (HistSessionLoaded item) s = loadCurrentSession_done g item s"

fun hist_run :: "(jsstring \<Rightarrow> nat \<Rightarrow> jsstring + jsstring) \<Rightarrow> hist_event list \<Rightarrow> HistoryPage \<Rightarrow> HistoryPage" where
  "hist_run g [] s = s"
| "hist_run g (e # es) s = hist_run g es (hist_step g e s)"


text \<open>
  The page as it mounts for a signed-in user with a configured store, and a
  \<open>generateTitle\<close> that returns its argument.
\<close>

definition fresh_history_page :: "jsstring \<Rightarrow> HistoryPage" where
  "fresh_history_page sessionId =
     \<lparr>hist_messages = [], hist_input = [], hist_loading = False,
      currentSessionId = sessionId, currentTitle = js ''New Chat'',
      hasGeneratedTitle = False, user = True, supabase = True, generateTitle_calls = []\<rparr>"

definition echo_title :: "jsstring \<Rightarrow> nat \<Rightarrow> jsstring + jsstring" where
  "echo_title firstMessageText maxWords = Inr firstMessageText"

section \<open>Failed completion requests\<close>

text \<open>
  What "the request fails with error text \<open>e\<close>" means for each page, for comparison
  with the handlers: the message of the exception that reaches the \<open>catch\<close> block,
  and \<open>None\<close> for an outcome that is not a failure.
\<close>

fun thrown_message :: "fetch_outcome \<Rightarrow> jsstring option" where
  "thrown_message (FetchRejected e) = Some e"
| "thrown_message (NotOk (Inl e)) = Some e"
| "thrown_message (NotOk (Inr None)) = Some (js ''Failed to get response'')"
| "thrown_message (NotOk (Inr (Some e))) =
     Some (if e = [] then js ''Failed to get response'' else e)"
| "thrown_message NoBody = Some (js ''No response body'')"
| "thrown_message (Streaming chunks (ReadFailed e)) = Some e"
| "thrown_message (Streaming chunks Done) = None"

fun hist_thrown_message :: "jsstring option json_fetch \<Rightarrow> jsstring option" where
  "hist_thrown_message (FetchThrows e) = Some e"
| "hist_thrown_message (JsonThrows e) = Some e"
| "hist_thrown_message (Body (Some e) data_response) =
     (if e \<noteq> [] then Some e
      else case data_response of
             None \<Rightarrow> Some (js ''Cannot read properties of undefined (reading '' @ [0x27] @
                           js ''match'' @ [0x27] @ js '')'')
           | Some r \<Rightarrow> None)"
| "hist_thrown_message (Body None None) =
     Some (js ''Cannot read properties of undefined (reading '' @ [0x27] @
           js ''match'' @ [0x27] @ js '')'')"
| "hist_thrown_message (Body None (Some r)) = None"

text \<open>
  \<open>error_notice_appended env e s s'\<close>: from \<open>s\<close> to \<open>s'\<close> the array has grown by the
  user's message, possibly the assistant message of a stream that broke off, and the
  error notice with text \<open>e\<close>; the objects that existed before are unchanged, and
  \<open>loading\<close> is off.
\<close>

definition error_notice_appended :: "send_env \<Rightarrow> jsstring \<Rightarrow> ChatPage \<Rightarrow> ChatPage \<Rightarrow> bool" where
  "error_notice_appended env e s s' =
     (heap s' (next_ref s) = new_message User (input s) (t_user env) None \<and>
      (\<forall>r<next_ref s. heap s' r = heap s r) \<and> \<not> loading s' \<and>
      ((messages s' = messages s @ [next_ref s, Suc (next_ref s)] \<and>
        heap s' (Suc (next_ref s)) = errorMessage e (t_error env)) \<or>
       (messages s' = messages s @ [next_ref s, Suc (next_ref s), Suc (Suc (next_ref s))] \<and>
        role (heap s' (Suc (next_ref s))) = Assistant \<and>
        heap s' (Suc (Suc (next_ref s))) = errorMessage e (t_error env))))"

section \<open>The HTTP routes\<close>

text \<open>
  The value that \<open>request.json()\<close> yields. Numbers are integers here; a key that
  occurs twice in an object has its last value, as \<open>JSON.parse\<close> gives it.
\<close>

datatype json =
    JNull
  | JBool bool
  | JNum int
  | JStr jsstring
  | JArr "json list"
  | JObj "(jsstring \<times> json) list"

datatype request_body = Malformed jsstring | Parsed json

text \<open>What \<open>!v\<close> tests; \<open>None\<close> is \<open>undefined\<close>.\<close>

fun truthy :: "json option \<Rightarrow> bool" where
  "truthy None = False"
| "truthy (Some JNull) = False"
| "truthy (Some (JBool b)) = b"
| "truthy (Some (JNum n)) = (n \<noteq> 0)"
| "truthy (Some (JStr t)) = (t \<noteq> [])"
| "truthy (Some (JArr xs)) = True"
| "truthy (Some (JObj kvs)) = True"

text \<open>
  A property of the destructured body. Only an object has the properties that the
  routes read; destructuring \<open>null\<close> throws, which the routes' \<open>destructure\<close> step
  reports.
\<close>

fun property :: "json \<Rightarrow> jsstring \<Rightarrow> json option" where
  "property (JObj kvs) k = map_of (rev kvs) k"
| "property j k = None"

definition destructure :: "request_body \<Rightarrow> jsstring + json" where
  "destructure req =
     (case req of
        Malformed e \<Rightarrow> Inl e
      | Parsed JNull \<Rightarrow> Inl (js ''Cannot destructure property of null'')
      | Parsed j \<Rightarrow> Inr j)"

datatype response_body =
    ErrorBody jsstring
  | PlanBody jsstring
  | RoadmapBody jsstring
  | ConceptBody jsstring jsstring jsstring jsstring
  | StreamBody "bytes list"

record response =
  status :: nat
  body :: response_body

text \<open>
  What a request meets outside the route: the Supabase client (\<open>None\<close> when the
  provider is not configured, otherwise how \<open>getSession\<close> ends), the clock, the
  server's time zone as a fixed offset from UTC in milliseconds, the time value of
  \<open>new Date(v)\<close> (\<open>None\<close> for an invalid date), and the three completion functions
  of \<open>@/lib/openai\<close>, which return a result or throw. The fixed wording of a prompt is
  not modelled: a prompt is the tuple of the values interpolated into it.
\<close>

datatype session_result = Session | NoSession | GetSessionThrows jsstring

datatype prompt =
    ExamPlannerPrompt "json option" "json option" "int option" "jsstring list" "json option"
  | CareerPrompt "json option" "json option" "json option" "json option"

record StructuredConcept =
  parsed_concept :: jsstring
  parsed_example :: jsstring
  parsed_takeaway :: jsstring
  parsed_raw :: jsstring

record route_env =
  createServerSupabaseClient :: "session_result option"
  current_time :: int
  timezone_offset :: int
  date_value :: "json option \<Rightarrow> int option"
  getChatCompletion :: "prompt \<Rightarrow> jsstring \<Rightarrow> jsstring + jsstring"
  getStructuredChatCompletion :: "jsstring \<Rightarrow> json option \<Rightarrow> json \<Rightarrow> jsstring + StructuredConcept"
  getChatStream :: "json list \<Rightarrow> jsstring \<Rightarrow> json \<Rightarrow> json option \<Rightarrow> jsstring + bytes list"

text \<open>
  The first statements of every route: the session is looked up only with a client,
  and without a session the route answers 401. The result is an exception (\<open>Inl\<close>),
  an early response, or nothing (the route goes on).
\<close>

definition authenticate :: "route_env \<Rightarrow> jsstring + response option" where
  "authenticate env =
     (case createServerSupabaseClient env of
        None \<Rightarrow> Inr None
      | Some Session \<Rightarrow> Inr None
      | Some NoSession \<Rightarrow> Inr (Some \<lparr>status = 401, body = ErrorBody (js ''Unauthorized'')\<rparr>)
      | Some (GetSessionThrows e) \<Rightarrow> Inl e)"

text \<open>The \<open>catch\<close> block of a route: status 500 with the message, or the route's default.\<close>

definition catch_500 :: "jsstring \<Rightarrow> jsstring + response \<Rightarrow> response" where
  "catch_500 default_message r =
     (case r of
        Inl e \<Rightarrow> \<lparr>status = 500, body = ErrorBody (if e = [] then default_message else e)\<rparr>
      | Inr res \<Rightarrow> res)"

definition route :: "jsstring \<Rightarrow> (route_env \<Rightarrow> request_body \<Rightarrow> jsstring + response) \<Rightarrow> route_env \<Rightarrow> request_body \<Rightarrow> response" where
  "route default_message process env req =
     catch_500 default_message
       (case authenticate env of
          Inl e \<Rightarrow> Inl e
        | Inr (Some early) \<Rightarrow> Inr early
        | Inr None \<Rightarrow> process env req)"

subsection \<open>/api/exam-planner\<close>

text \<open>
  \<open>setHours(0, 0, 0, 0)\<close> in a time zone with a fixed offset, and \<open>Math.ceil\<close> of a
  quotient of integers.
\<close>

definition local_midnight :: "int \<Rightarrow> int \<Rightarrow> int" where
  "local_midnight offset t = t - (t + offset) mod 86400000"

definition ceil_div :: "int \<Rightarrow> int \<Rightarrow> int" where
  "ceil_div a b = - ((- a) div b)"

definition daysUntilExam :: "route_env \<Rightarrow> json option \<Rightarrow> int option" where
  "daysUntilExam env examDate =
     (case date_value env examDate of
        None \<Rightarrow> None
      | Some examDateObj \<Rightarrow>
          Some (ceil_div (local_midnight (timezone_offset env) examDateObj -
                          local_midnight (timezone_offset env) (current_time env))
                         (1000 * 60 * 60 * 24)))"

text \<open>\<open>subjects.split(',').map(s => s.trim()).filter(Boolean)\<close>\<close>

fun split_comma :: "jsstring \<Rightarrow> jsstring list" where
  "split_comma [] = [[]]"
| "split_comma (c # cs) =
     (if c = 0x2C then [] # split_comma cs
      else case split_comma cs of
             [] \<Rightarrow> [[c]]
           | x # xs \<Rightarrow> (c # x) # xs)"

definition subjectsList :: "jsstring \<Rightarrow> jsstring list" where
  "subjectsList subjects = filter (\<lambda>t. t \<noteq> []) (map trim (split_comma subjects))"

definition exam_planner_process :: "route_env \<Rightarrow> request_body \<Rightarrow> jsstring + response" where
  "exam_planner_process env req =
     (case destructure req of
        Inl e \<Rightarrow> Inl e
      | Inr j \<Rightarrow>
          (let examName = property j (js ''examName'');
               examDate = property j (js ''examDate'');
               subjects = property j (js ''subjects'');
               dailyHours = property j (js ''dailyHours'')
           in if \<not> truthy examName \<or> \<not> truthy examDate \<or> \<not> truthy subjects \<or> \<not> truthy dailyHours
              then Inr \<lparr>status = 400, body = ErrorBody (js ''Missing required fields'')\<rparr>
              else if (case daysUntilExam env examDate of None \<Rightarrow> False | Some n \<Rightarrow> n < 1)
              then Inr \<lparr>status = 400, body = ErrorBody (js ''Exam date must be in the future'')\<rparr>
              else case subjects of
                     Some (JStr t) \<Rightarrow>
                       (case getChatCompletion env
                               (ExamPlannerPrompt examName examDate (daysUntilExam env examDate)
                                  (subjectsList t) dailyHours)
                               (js ''study'') of
                          Inl e \<Rightarrow> Inl e
                        | Inr plan \<Rightarrow> Inr \<lparr>status = 200, body = PlanBody plan\<rparr>)
                   | _ \<Rightarrow> Inl (js ''subjects.split is not a function'')))"

definition exam_planner_POST :: "route_env \<Rightarrow> request_body \<Rightarrow> response" where
  "exam_planner_POST = route (js ''Failed to generate study plan'') exam_planner_process"

subsection \<open>/api/career\<close>

definition career_process :: "route_env \<Rightarrow> request_body \<Rightarrow> jsstring + response" where
  "career_process env req =
     (case destructure req of
        Inl e \<Rightarrow> Inl e
      | Inr j \<Rightarrow>
          (let currentEducation = property j (js ''currentEducation'');
               interests = property j (js ''interests'');
               strengths = property j (js ''strengths'');
               goals = property j (js ''goals'')
           in if \<not> truthy currentEducation \<or> \<not> truthy interests \<or> \<not> truthy strengths
              then Inr \<lparr>status = 400, body = ErrorBody (js ''Missing required fields'')\<rparr>
              else case getChatCompletion env
                          (CareerPrompt currentEducation interests strengths
                             (if truthy goals then goals else None))
                          (js ''career'') of
                     Inl e \<Rightarrow> Inl e
                   | Inr roadmap \<Rightarrow> Inr \<lparr>status = 200, body = RoadmapBody roadmap\<rparr>))"

definition career_POST :: "route_env \<Rightarrow> request_body \<Rightarrow> response" where
  "career_POST = route (js ''Failed to generate roadmap'') career_process"

subsection \<open>/api/chat/2min-concept\<close>

text \<open>\<open>language || 'hinglish'\<close>\<close>

definition or_hinglish :: "json option \<Rightarrow> json" where
  "or_hinglish language =
     (case language of
        None \<Rightarrow> JStr (js ''hinglish'')
      | Some v \<Rightarrow> if truthy (Some v) then v else JStr (js ''hinglish''))"

definition two_min_concept_process :: "route_env \<Rightarrow> request_body \<Rightarrow> jsstring + response" where
  "two_min_concept_process env req =
     (case destructure req of
        Inl e \<Rightarrow> Inl e
      | Inr j \<Rightarrow>
          (let tp = property j (js ''topic'');
               language = property j (js ''language'');
               firstName = property j (js ''firstName'')
           in case tp of
                Some (JStr t) \<Rightarrow>
                  if t = [] then Inr \<lparr>status = 400, body = ErrorBody (js ''Topic is required'')\<rparr>
                  else (case getStructuredChatCompletion env t
                               (if truthy firstName then firstName else None)
                               (or_hinglish language) of
                          Inl e \<Rightarrow> Inl e
                        | Inr parsed \<Rightarrow>
                            Inr \<lparr>status = 200,
                                 body = ConceptBody (parsed_concept parsed) (parsed_example parsed)
                                          (parsed_takeaway parsed) (parsed_raw parsed)\<rparr>)
              | _ \<Rightarrow> Inr \<lparr>status = 400, body = ErrorBody (js ''Topic is required'')\<rparr>))"

definition two_min_concept_POST :: "route_env \<Rightarrow> request_body \<Rightarrow> response" where
  "two_min_concept_POST = route (js ''Failed to generate 2-minute concept'') two_min_concept_process"

subsection \<open>/api/chat\<close>

definition chat_process :: "route_env \<Rightarrow> request_body \<Rightarrow> jsstring + response" where
  "chat_process env req =
     (case destructure req of
        Inl e \<Rightarrow> Inl e
      | Inr j \<Rightarrow>
          (let language = property j (js ''language'');
               firstName = property j (js ''firstName'')
           in case property j (js ''messages'') of
                Some (JArr msgs) \<Rightarrow>
                  (case getChatStream env msgs (js ''study'') (or_hinglish language) firstName of
                     Inl e \<Rightarrow> Inl e
                   | Inr stream \<Rightarrow> Inr \<lparr>status = 200, body = StreamBody stream\<rparr>)
              | _ \<Rightarrow> Inr \<lparr>status = 400, body = ErrorBody (js ''Invalid messages format'')\<rparr>))"

definition chat_POST :: "route_env \<Rightarrow> request_body \<Rightarrow> response" where
  "chat_POST = route (js ''Failed to get AI response'') chat_process"

subsection \<open>Calendar days and a concrete server\<close>


text \<open>
  A server in the time zone UTC+05:30 at 2025-01-14 10:00 local time, without an
  auth provider, for which the text of the date field is the number of milliseconds in
  decimal digits, and whose completion functions answer with fixed texts.
\<close>

fun digits_value :: "jsstring \<Rightarrow> int option" where
  "digits_value [] = None"
| "digits_value cs =
     (if list_all (\<lambda>c. 0x30 \<le> c \<and> c \<le> 0x39) cs
      then Some (foldl (\<lambda>n c. 10 * n + (int c - 0x30)) 0 cs) else None)"

definition test_server :: "session_result option \<Rightarrow> route_env" where
  "test_server client =
     \<lparr>createServerSupabaseClient = client,
      current_time = 1736829000000,
      timezone_offset = 19800000,
      date_value = (\<lambda>v. case v of Some (JStr t) \<Rightarrow> digits_value t
                                 | Some (JNum n) \<Rightarrow> Some n | _ \<Rightarrow> None),
      getChatCompletion = (\<lambda>p mode. Inr (js ''Day 1: Math'')),
      getStructuredChatCompletion = (\<lambda>t firstName language.
         Inr \<lparr>parsed_concept = js ''c'', parsed_example = js ''e'',
              parsed_takeaway = js ''t'', parsed_raw = js ''{}''\<rparr>),
      getChatStream = (\<lambda>msgs mode language firstName. Inr [])\<rparr>"

definition exam_request :: "jsstring \<Rightarrow> request_body" where
  "exam_request examDate =
     Parsed (JObj [(js ''examName'', JStr (js ''JEE'')), (js ''examDate'', JStr examDate),
                   (js ''subjects'', JStr (js ''Math,Physics'')), (js ''dailyHours'', JStr (js ''3''))])"

section \<open>Properties of the matcher\<close>

lemma ci_equal_length: "ci_equal p m \<Longrightarrow> length m = length p"
  unfolding ci_equal_def by (metis length_map)

lemma match_ci_Some_iff:
  "match_ci p t = Some r \<longleftrightarrow> (\<exists>m. t = m @ r \<and> ci_equal p m)"
proof (induction p t rule: match_ci.induct)
  case (1 t)
  show ?case by (auto simp: ci_equal_def)
next
  case (2 p ps)
  show ?case by (auto simp: ci_equal_def)
next
  case (3 p ps c cs)
  show ?case
  proof (cases "canonicalize c = canonicalize p")
    case True
    have "(\<exists>m. c # cs = m @ r \<and> ci_equal (p # ps) m) \<longleftrightarrow> (\<exists>m'. cs = m' @ r \<and> ci_equal ps m')"
    proof
      assume "\<exists>m. c # cs = m @ r \<and> ci_equal (p # ps) m"
      then obtain m where m: "c # cs = m @ r" "ci_equal (p # ps) m" by blast
      from m(2) obtain x m' where mm: "m = x # m'" by (cases m) (auto simp: ci_equal_def)
      with m show "\<exists>m'. cs = m' @ r \<and> ci_equal ps m'" by (auto simp: ci_equal_def)
    next
      assume "\<exists>m'. cs = m' @ r \<and> ci_equal ps m'"
      then obtain m' where "cs = m' @ r" "ci_equal ps m'" by blast
      with True have "c # cs = (c # m') @ r \<and> ci_equal (p # ps) (c # m')"
        by (simp add: ci_equal_def)
      then show "\<exists>m. c # cs = m @ r \<and> ci_equal (p # ps) m" by blast
    qed
    with True 3 show ?thesis by simp
  next
    case False
    have "\<not> (\<exists>m. c # cs = m @ r \<and> ci_equal (p # ps) m)"
    proof
      assume "\<exists>m. c # cs = m @ r \<and> ci_equal (p # ps) m"
      then obtain m where m: "c # cs = m @ r" "ci_equal (p # ps) m" by blast
      from m(2) obtain x m' where mm: "m = x # m'" by (cases m) (auto simp: ci_equal_def)
      with m False show False by (auto simp: ci_equal_def)
    qed
    with False show ?thesis by simp
  qed
qed

lemma search_None_iff:
  "search f t = None \<longleftrightarrow> (\<forall>i\<le>length t. f (drop i t) = None)"
proof (induction t)
  case Nil
  show ?case by simp
next
  case (Cons c cs)
  have "(\<forall>i\<le>length (c # cs). f (drop i (c # cs)) = None) \<longleftrightarrow>
        f (c # cs) = None \<and> (\<forall>i\<le>length cs. f (drop i cs) = None)"
  proof (intro iffI conjI allI impI)
    assume a: "\<forall>i\<le>length (c # cs). f (drop i (c # cs)) = None"
    from a [rule_format, of 0] show "f (c # cs) = None" by simp
    fix i assume "i \<le> length cs"
    with a [rule_format, of "Suc i"] show "f (drop i cs) = None" by simp
  next
    fix i assume a: "f (c # cs) = None \<and> (\<forall>i\<le>length cs. f (drop i cs) = None)"
      and i: "i \<le> length (c # cs)"
    show "f (drop i (c # cs)) = None"
    proof (cases i)
      case 0 with a show ?thesis by simp
    next
      case (Suc j) with a i show ?thesis by simp
    qed
  qed
  with Cons show ?case by (simp split: option.splits)
qed

lemma search_Some:
  "search f t = Some r \<Longrightarrow>
     \<exists>i\<le>length t. f (drop i t) = Some r \<and> (\<forall>j<i. f (drop j t) = None)"
proof (induction t)
  case Nil
  then show ?case by simp
next
  case (Cons c cs)
  show ?case
  proof (cases "f (c # cs)")
    case (Some v)
    with Cons.prems have "f (drop 0 (c # cs)) = Some r" by simp
    then show ?thesis by (intro exI [of _ 0]) simp
  next
    case None
    with Cons.prems have "search f cs = Some r" by simp
    from Cons.IH [OF this] obtain i where i: "i \<le> length cs" "f (drop i cs) = Some r"
      "\<forall>j<i. f (drop j cs) = None" by blast
    have "\<forall>j<Suc i. f (drop j (c # cs)) = None"
    proof (intro allI impI)
      fix j assume "j < Suc i"
      then show "f (drop j (c # cs)) = None"
        using None i(3) by (cases j) simp_all
    qed
    with i show ?thesis by (intro exI [of _ "Suc i"]) simp
  qed
qed

lemma spaces_then_None_iff:
  "spaces_then k t n = None \<longleftrightarrow> (\<forall>j\<le>n. k (drop j t) = None)"
proof (induction n)
  case 0
  show ?case by simp
next
  case (Suc n)
  have "(\<forall>j\<le>Suc n. k (drop j t) = None) \<longleftrightarrow>
        k (drop (Suc n) t) = None \<and> (\<forall>j\<le>n. k (drop j t) = None)"
    by (auto simp: le_Suc_eq)
  with Suc show ?case by (simp split: option.splits)
qed

lemma spaces_then_Some:
  "spaces_then k t n = Some r \<Longrightarrow> \<exists>j\<le>n. k (drop j t) = Some r"
proof (induction n)
  case 0
  then show ?case by simp
next
  case (Suc n)
  show ?case
  proof (cases "k (drop (Suc n) t)")
    case None
    with Suc.prems have "spaces_then k t n = Some r" by simp
    from Suc.IH [OF this] show ?thesis by (auto simp: le_Suc_eq)
  next
    case (Some v)
    with Suc.prems have "k (drop (Suc n) t) = Some r" by simp
    then show ?thesis by blast
  qed
qed

lemma take_spaces: "j \<le> length (takeWhile is_space t) \<Longrightarrow> list_all is_space (take j t)"
proof -
  assume j: "j \<le> length (takeWhile is_space t)"
  have "take j t = take j (takeWhile is_space t @ dropWhile is_space t)" by simp
  also have "\<dots> = take j (takeWhile is_space t)" using j by (simp del: takeWhile_dropWhile_id)
  finally have "set (take j t) \<subseteq> set (takeWhile is_space t)" by (simp add: set_take_subset)
  then show ?thesis by (auto simp: list_all_iff dest: set_takeWhileD)
qed

lemma spaces_prefix_length:
  "list_all is_space ws \<Longrightarrow> length ws \<le> length (takeWhile is_space (ws @ rest))"
  by (induction ws) simp_all

lemma greedy_spaces_None_iff:
  "greedy_spaces k t = None \<longleftrightarrow>
     \<not> (\<exists>ws rest. t = ws @ rest \<and> list_all is_space ws \<and> k rest \<noteq> None)"
proof
  assume n: "greedy_spaces k t = None"
  show "\<not> (\<exists>ws rest. t = ws @ rest \<and> list_all is_space ws \<and> k rest \<noteq> None)"
  proof
    assume "\<exists>ws rest. t = ws @ rest \<and> list_all is_space ws \<and> k rest \<noteq> None"
    then obtain ws rest where d: "t = ws @ rest" "list_all is_space ws" "k rest \<noteq> None" by blast
    from d(1,2) have "length ws \<le> length (takeWhile is_space t)"
      by (simp add: spaces_prefix_length)
    with n have "k (drop (length ws) t) = None"
      by (simp add: greedy_spaces_def spaces_then_None_iff)
    with d show False by simp
  qed
next
  assume a: "\<not> (\<exists>ws rest. t = ws @ rest \<and> list_all is_space ws \<and> k rest \<noteq> None)"
  have "\<forall>j\<le>length (takeWhile is_space t). k (drop j t) = None"
  proof (intro allI impI)
    fix j assume j: "j \<le> length (takeWhile is_space t)"
    have "t = take j t @ drop j t" by simp
    with a take_spaces [OF j] show "k (drop j t) = None" by blast
  qed
  then show "greedy_spaces k t = None"
    by (simp add: greedy_spaces_def spaces_then_None_iff)
qed

lemma greedy_spaces_Some:
  "greedy_spaces k t = Some r \<Longrightarrow>
     \<exists>ws rest. t = ws @ rest \<and> list_all is_space ws \<and> k rest = Some r"
proof -
  assume "greedy_spaces k t = Some r"
  then obtain j where j: "j \<le> length (takeWhile is_space t)" "k (drop j t) = Some r"
    unfolding greedy_spaces_def by (blast dest: spaces_then_Some)
  have "t = take j t @ drop j t" by simp
  with j take_spaces [OF j(1)] show ?thesis by blast
qed


lemma match_ci_take:
  "match_ci p t = Some r \<Longrightarrow> ci_equal p (take (length p) t) \<and> t = take (length p) t @ r"
proof -
  assume "match_ci p t = Some r"
  then obtain m where m: "t = m @ r" "ci_equal p m" by (auto simp: match_ci_Some_iff)
  then have "take (length p) t = m" using ci_equal_length [OF m(2)] by simp
  with m show ?thesis by simp
qed

lemma level_at_Some:
  "level_at t = Some v \<Longrightarrow>
     (\<exists>post. t = v @ post) \<and>
     (ci_equal (js ''High'') v \<or> ci_equal (js ''Medium'') v \<or> ci_equal (js ''Low'') v)"
proof -
  assume a: "level_at t = Some v"
  consider (h) "match_ci (js ''High'') t \<noteq> None" "v = take 4 t"
    | (m) "match_ci (js ''Medium'') t \<noteq> None" "v = take 6 t"
    | (l) "match_ci (js ''Low'') t \<noteq> None" "v = take 3 t"
    using a unfolding level_at_def by (auto split: if_splits)
  then show ?thesis
  proof cases
    case h
    then obtain r where "match_ci (js ''High'') t = Some r" by blast
    from match_ci_take [OF this] have "ci_equal (js ''High'') (take 4 t) \<and> t = take 4 t @ r"
      by (simp add: eval_nat_numeral)
    with h(2) show ?thesis by blast
  next
    case m
    then obtain r where "match_ci (js ''Medium'') t = Some r" by blast
    from match_ci_take [OF this] have "ci_equal (js ''Medium'') (take 6 t) \<and> t = take 6 t @ r"
      by (simp add: eval_nat_numeral)
    with m(2) show ?thesis by blast
  next
    case l
    then obtain r where "match_ci (js ''Low'') t = Some r" by blast
    from match_ci_take [OF this] have "ci_equal (js ''Low'') (take 3 t) \<and> t = take 3 t @ r"
      by (simp add: eval_nat_numeral)
    with l(2) show ?thesis by blast
  qed
qed

lemma level_at_None_iff:
  "level_at t = None \<longleftrightarrow>
     \<not> (\<exists>lvl post. t = lvl @ post \<and>
          (ci_equal (js ''High'') lvl \<or> ci_equal (js ''Medium'') lvl \<or> ci_equal (js ''Low'') lvl))"
proof
  assume n: "level_at t = None"
  then have "match_ci (js ''High'') t = None" "match_ci (js ''Medium'') t = None"
    "match_ci (js ''Low'') t = None"
    unfolding level_at_def by (auto split: if_splits)
  then have "\<And>p r. p \<in> {js ''High'', js ''Medium'', js ''Low''} \<Longrightarrow> match_ci p t \<noteq> Some r"
    by auto
  then show "\<not> (\<exists>lvl post. t = lvl @ post \<and>
          (ci_equal (js ''High'') lvl \<or> ci_equal (js ''Medium'') lvl \<or> ci_equal (js ''Low'') lvl))"
    unfolding match_ci_Some_iff by blast
next
  assume a: "\<not> (\<exists>lvl post. t = lvl @ post \<and>
          (ci_equal (js ''High'') lvl \<or> ci_equal (js ''Medium'') lvl \<or> ci_equal (js ''Low'') lvl))"
  show "level_at t = None"
  proof (cases "level_at t")
    case None then show ?thesis .
  next
    case (Some v)
    from level_at_Some [OF this] a show ?thesis by blast
  qed
qed

lemma lower_of_canonicalize:
  "canonicalize c = canonicalize p \<Longrightarrow>
     (if 0x41 \<le> c \<and> c \<le> 0x5A then c + 0x20 else c) = (if 0x41 \<le> p \<and> p \<le> 0x5A then p + 0x20 else p)"
  unfolding canonicalize_def by (auto split: if_splits)

lemma ci_equal_toLowerCase: "ci_equal p v \<Longrightarrow> toLowerCase v = toLowerCase p"
proof (induction v arbitrary: p)
  case Nil
  then show ?case by (simp add: ci_equal_def toLowerCase_def)
next
  case (Cons c cs)
  then obtain q qs where p: "p = q # qs" by (cases p) (auto simp: ci_equal_def)
  with Cons.prems have "canonicalize c = canonicalize q" "ci_equal qs cs"
    by (auto simp: ci_equal_def)
  with Cons.IH [of qs] lower_of_canonicalize [of c q] p show ?case
    by (simp add: toLowerCase_def)
qed

lemma dot_plus_None_iff:
  "dot_plus t = None \<longleftrightarrow>
     \<not> (\<exists>cap post. t = cap @ post \<and> cap \<noteq> [] \<and> list_all (\<lambda>c. \<not> is_line_terminator c) cap)"
proof (cases t)
  case Nil
  then show ?thesis by (simp add: dot_plus_def)
next
  case (Cons c cs)
  show ?thesis
  proof (cases "is_line_terminator c")
    case True
    have "\<not> (\<exists>cap post. t = cap @ post \<and> cap \<noteq> [] \<and> list_all (\<lambda>c. \<not> is_line_terminator c) cap)"
    proof
      assume "\<exists>cap post. t = cap @ post \<and> cap \<noteq> [] \<and> list_all (\<lambda>c. \<not> is_line_terminator c) cap"
      then obtain cap post where c: "t = cap @ post" "cap \<noteq> []"
        "list_all (\<lambda>c. \<not> is_line_terminator c) cap" by blast
      then obtain x xs where "cap = x # xs" by (cases cap) auto
      with c Cons True show False by simp
    qed
    with True Cons show ?thesis by (simp add: dot_plus_def)
  next
    case False
    with Cons have "t = [c] @ cs \<and> [c] \<noteq> [] \<and> list_all (\<lambda>c. \<not> is_line_terminator c) [c]"
      by simp
    then have "\<exists>cap post. t = cap @ post \<and> cap \<noteq> [] \<and> list_all (\<lambda>c. \<not> is_line_terminator c) cap"
      by blast
    with False Cons show ?thesis by (simp add: dot_plus_def)
  qed
qed

lemma confidenceMatch_None_iff:
  "confidenceMatch text = None \<longleftrightarrow> \<not> confidence_pattern_matches text"
proof
  assume n: "confidenceMatch text = None"
  show "\<not> confidence_pattern_matches text"
  proof
    assume "confidence_pattern_matches text"
    then obtain pre m ws lvl post where d: "text = pre @ m @ ws @ lvl @ post"
      "ci_equal (js ''Confidence:'') m" "list_all is_space ws"
      "ci_equal (js ''High'') lvl \<or> ci_equal (js ''Medium'') lvl \<or> ci_equal (js ''Low'') lvl"
      unfolding confidence_pattern_matches_def by blast
    have le: "length pre \<le> length text" using d(1) by simp
    have dr: "drop (length pre) text = m @ ws @ lvl @ post" using d(1) by simp
    have m: "match_ci (js ''Confidence:'') (m @ ws @ lvl @ post) = Some (ws @ lvl @ post)"
      using d(2) unfolding match_ci_Some_iff by blast
    from d(4) have "level_at (lvl @ post) \<noteq> None"
      unfolding level_at_None_iff by blast
    with d(3) have "greedy_spaces level_at (ws @ lvl @ post) \<noteq> None"
      unfolding greedy_spaces_None_iff by blast
    moreover from n le have "(case match_ci (js ''Confidence:'') (drop (length pre) text) of
        None \<Rightarrow> None | Some r \<Rightarrow> greedy_spaces level_at r) = None"
      unfolding confidenceMatch_def search_None_iff by blast
    ultimately show False unfolding dr m by simp
  qed
next
  assume a: "\<not> confidence_pattern_matches text"
  show "confidenceMatch text = None"
  proof (cases "confidenceMatch text")
    case None then show ?thesis .
  next
    case (Some v)
    then obtain i where i: "i \<le> length text"
      "(case match_ci (js ''Confidence:'') (drop i text) of
          None \<Rightarrow> None | Some r \<Rightarrow> greedy_spaces level_at r) = Some v"
      unfolding confidenceMatch_def by (blast dest: search_Some)
    then obtain r where r: "match_ci (js ''Confidence:'') (drop i text) = Some r"
      "greedy_spaces level_at r = Some v"
      by (auto split: option.splits)
    from r(1) obtain m where m: "drop i text = m @ r" "ci_equal (js ''Confidence:'') m"
      unfolding match_ci_Some_iff by blast
    from greedy_spaces_Some [OF r(2)] obtain ws rest where w: "r = ws @ rest"
      "list_all is_space ws" "level_at rest = Some v" by blast
    from level_at_Some [OF w(3)] obtain post where l: "rest = v @ post"
      "ci_equal (js ''High'') v \<or> ci_equal (js ''Medium'') v \<or> ci_equal (js ''Low'') v"
      by blast
    have "text = take i text @ drop i text" by simp
    with m w l have "text = take i text @ m @ ws @ v @ post" by simp
    with m(2) w(2) l(2) have "confidence_pattern_matches text"
      unfolding confidence_pattern_matches_def by blast
    with a show ?thesis by simp
  qed
qed

lemma askMatch_None_iff:
  "askMatch text = None \<longleftrightarrow> \<not> ask_pattern_matches text"
proof
  assume n: "askMatch text = None"
  show "\<not> ask_pattern_matches text"
  proof
    assume "ask_pattern_matches text"
    then obtain pre m ws cap post where d: "text = pre @ m @ ws @ cap @ post"
      "ci_equal (js ''Ask-Me-Back:'') m" "list_all is_space ws"
      "cap \<noteq> []" "list_all (\<lambda>c. \<not> is_line_terminator c) cap"
      unfolding ask_pattern_matches_def by blast
    have le: "length pre \<le> length text" using d(1) by simp
    have dr: "drop (length pre) text = m @ ws @ cap @ post" using d(1) by simp
    have m: "match_ci (js ''Ask-Me-Back:'') (m @ ws @ cap @ post) = Some (ws @ cap @ post)"
      using d(2) unfolding match_ci_Some_iff by blast
    from d(4,5) have "dot_plus (cap @ post) \<noteq> None"
      unfolding dot_plus_None_iff by blast
    with d(3) have "greedy_spaces dot_plus (ws @ cap @ post) \<noteq> None"
      unfolding greedy_spaces_None_iff by blast
    moreover from n le have "(case match_ci (js ''Ask-Me-Back:'') (drop (length pre) text) of
        None \<Rightarrow> None | Some r \<Rightarrow> greedy_spaces dot_plus r) = None"
      unfolding askMatch_def search_None_iff by blast
    ultimately show False unfolding dr m by simp
  qed
next
  assume a: "\<not> ask_pattern_matches text"
  show "askMatch text = None"
  proof (cases "askMatch text")
    case None then show ?thesis .
  next
    case (Some v)
    then obtain i where i: "i \<le> length text"
      "(case match_ci (js ''Ask-Me-Back:'') (drop i text) of
          None \<Rightarrow> None | Some r \<Rightarrow> greedy_spaces dot_plus r) = Some v"
      unfolding askMatch_def by (blast dest: search_Some)
    then obtain r where r: "match_ci (js ''Ask-Me-Back:'') (drop i text) = Some r"
      "greedy_spaces dot_plus r = Some v"
      by (auto split: option.splits)
    from r(1) obtain m where m: "drop i text = m @ r" "ci_equal (js ''Ask-Me-Back:'') m"
      unfolding match_ci_Some_iff by blast
    from greedy_spaces_Some [OF r(2)] obtain ws rest where w: "r = ws @ rest"
      "list_all is_space ws" "dot_plus rest = Some v" by blast
    from w(3) have "dot_plus rest \<noteq> None" by simp
    then obtain cap post where l: "rest = cap @ post" "cap \<noteq> []"
      "list_all (\<lambda>c. \<not> is_line_terminator c) cap"
      unfolding dot_plus_None_iff by blast
    have "text = take i text @ drop i text" by simp
    with m w l have "text = take i text @ m @ ws @ cap @ post" by simp
    with m(2) w(2) l(2,3) have "ask_pattern_matches text"
      unfolding ask_pattern_matches_def by blast
    with a show ?thesis by simp
  qed
qed

lemma confidenceMatch_level:
  "confidenceMatch text = Some v \<Longrightarrow>
     toLowerCase v = js ''high'' \<or> toLowerCase v = js ''medium'' \<or> toLowerCase v = js ''low''"
proof -
  assume "confidenceMatch text = Some v"
  then obtain i where i: "i \<le> length text"
    "(case match_ci (js ''Confidence:'') (drop i text) of
        None \<Rightarrow> None | Some r \<Rightarrow> greedy_spaces level_at r) = Some v"
    unfolding confidenceMatch_def by (blast dest: search_Some)
  then obtain r where r: "greedy_spaces level_at r = Some v"
    by (auto split: option.splits)
  from greedy_spaces_Some [OF r] obtain rest where "level_at rest = Some v" by blast
  from level_at_Some [OF this]
  have d: "ci_equal (js ''High'') v \<or> ci_equal (js ''Medium'') v \<or> ci_equal (js ''Low'') v"
    by blast
  have h: "ci_equal (js ''High'') v \<Longrightarrow> toLowerCase v = js ''high''"
    using ci_equal_toLowerCase [of "js ''High''" v] by (simp add: toLowerCase_def)
  have m: "ci_equal (js ''Medium'') v \<Longrightarrow> toLowerCase v = js ''medium''"
    using ci_equal_toLowerCase [of "js ''Medium''" v] by (simp add: toLowerCase_def)
  have l: "ci_equal (js ''Low'') v \<Longrightarrow> toLowerCase v = js ''low''"
    using ci_equal_toLowerCase [of "js ''Low''" v] by (simp add: toLowerCase_def)
  from d h m l show ?thesis by blast
qed

lemma occurs_ci_Cons:
  assumes "match_ci p (c # cs) = None"
  shows "occurs_ci p (c # cs) \<longleftrightarrow> occurs_ci p cs"
proof
  assume "occurs_ci p (c # cs)"
  then obtain pre m post where d: "c # cs = pre @ m @ post" "ci_equal p m"
    unfolding occurs_ci_def by blast
  show "occurs_ci p cs"
  proof (cases pre)
    case Nil
    with d have "match_ci p (c # cs) = Some post" unfolding match_ci_Some_iff by auto
    with assms show ?thesis by simp
  next
    case (Cons x pre')
    with d have "cs = pre' @ m @ post" by simp
    with d(2) show ?thesis unfolding occurs_ci_def by blast
  qed
next
  assume "occurs_ci p cs"
  then obtain pre m post where "cs = pre @ m @ post" "ci_equal p m"
    unfolding occurs_ci_def by blast
  then have "c # cs = (c # pre) @ m @ post \<and> ci_equal p m" by simp
  then show "occurs_ci p (c # cs)" unfolding occurs_ci_def by blast
qed

lemma marker_line_removedI:
  "t = pre @ m @ line @ rest \<Longrightarrow> ci_equal p m \<Longrightarrow>
   \<forall>pre' m' post'. t = pre' @ m' @ post' \<and> ci_equal p m' \<longrightarrow> length pre \<le> length pre' \<Longrightarrow>
   list_all (\<lambda>c. \<not> is_line_terminator c) line \<Longrightarrow>
   rest = [] \<or> is_line_terminator (hd rest) \<Longrightarrow>
   t' = pre @ rest \<Longrightarrow> marker_line_removed p t t'"
  unfolding marker_line_removed_def by blast

lemma replace_marker_line_spec:
  assumes "p \<noteq> []"
  shows "marker_line_removed p t (replace_marker_line p t)"
proof (induction t)
  case Nil
  have "\<not> occurs_ci p []"
    using assms by (auto simp: occurs_ci_def ci_equal_def)
  then show ?case by (simp add: marker_line_removed_def)
next
  case (Cons c cs)
  show ?case
  proof (cases "match_ci p (c # cs)")
    case (Some r)
    then obtain m where m: "c # cs = m @ r" "ci_equal p m"
      unfolding match_ci_Some_iff by blast
    let ?line = "takeWhile (\<lambda>c. \<not> is_line_terminator c) r"
    let ?rest = "dropWhile (\<lambda>c. \<not> is_line_terminator c) r"
    have 1: "c # cs = [] @ m @ ?line @ ?rest" using m(1) by simp
    have 2: "list_all (\<lambda>c. \<not> is_line_terminator c) ?line"
      by (auto simp: list_all_iff dest: set_takeWhileD)
    have 3: "?rest = [] \<or> is_line_terminator (hd ?rest)"
      using hd_dropWhile [of "\<lambda>c. \<not> is_line_terminator c" r] by blast
    have 4: "\<forall>pre' m' post'. c # cs = pre' @ m' @ post' \<and> ci_equal p m' \<longrightarrow>
               length ([]::jsstring) \<le> length pre'" by simp
    have "marker_line_removed p (c # cs) ?rest"
      by (rule marker_line_removedI [OF 1 m(2) 4 2 3]) simp
    with Some show ?thesis by simp
  next
    case None
    from Cons.IH consider (a) "\<not> occurs_ci p cs" "replace_marker_line p cs = cs"
      | (b) pre m line rest where "cs = pre @ m @ line @ rest" "ci_equal p m"
          "\<forall>pre' m' post'. cs = pre' @ m' @ post' \<and> ci_equal p m' \<longrightarrow> length pre \<le> length pre'"
          "list_all (\<lambda>c. \<not> is_line_terminator c) line"
          "rest = [] \<or> is_line_terminator (hd rest)"
          "replace_marker_line p cs = pre @ rest"
      unfolding marker_line_removed_def by blast
    then show ?thesis
    proof cases
      case a
      with None show ?thesis
        by (simp add: marker_line_removed_def occurs_ci_Cons)
    next
      case b
      have 1: "c # cs = (c # pre) @ m @ line @ rest" using b(1) by simp
      have 4: "\<forall>pre' m' post'. c # cs = pre' @ m' @ post' \<and> ci_equal p m' \<longrightarrow>
                 length (c # pre) \<le> length pre'"
      proof (intro allI impI)
        fix pre' m' post'
        assume d: "c # cs = pre' @ m' @ post' \<and> ci_equal p m'"
        show "length (c # pre) \<le> length pre'"
        proof (cases pre')
          case Nil
          with d have "match_ci p (c # cs) = Some post'" unfolding match_ci_Some_iff by auto
          with None show ?thesis by simp
        next
          case (Cons x pre'')
          with d have "cs = pre'' @ m' @ post' \<and> ci_equal p m'" by simp
          with b(3) have "length pre \<le> length pre''" by blast
          with Cons show ?thesis by simp
        qed
      qed
      have 5: "c # replace_marker_line p cs = (c # pre) @ rest" using b(6) by simp
      have "marker_line_removed p (c # cs) (c # replace_marker_line p cs)"
        by (rule marker_line_removedI [OF 1 b(2) 4 b(4) b(5) 5])
      with None show ?thesis by simp
    qed
  qed
qed

lemma replace_marker_line_absent:
  "p \<noteq> [] \<Longrightarrow> \<not> occurs_ci p t \<Longrightarrow> replace_marker_line p t = t"
proof (induction t)
  case Nil
  show ?case by simp
next
  case (Cons c cs)
  have n: "match_ci p (c # cs) = None"
  proof (cases "match_ci p (c # cs)")
    case None then show ?thesis .
  next
    case (Some r)
    then obtain m where "c # cs = [] @ m @ r" "ci_equal p m"
      unfolding match_ci_Some_iff by auto
    then have "occurs_ci p (c # cs)" unfolding occurs_ci_def by blast
    with Cons.prems show ?thesis by simp
  qed
  with Cons.prems have "\<not> occurs_ci p cs" by (simp add: occurs_ci_Cons)
  with Cons.IH Cons.prems(1) n show ?case by simp
qed

lemma trim_spec: "trimmed t (trim t)"
proof -
  let ?a = "takeWhile is_space t"
  let ?u = "dropWhile is_space t"
  let ?w = "dropWhile is_space (rev ?u)"
  let ?b = "takeWhile is_space (rev ?u)"
  have tr: "trim t = rev ?w" by (simp add: trim_def)
  have "?u = rev (rev ?u)" by simp
  also have "\<dots> = rev (?b @ ?w)" by (simp only: takeWhile_dropWhile_id)
  also have "\<dots> = rev ?w @ rev ?b" by (simp only: rev_append)
  finally have u: "?u = rev ?w @ rev ?b" .
  have "t = ?a @ ?u" by simp
  with u have 1: "t = ?a @ rev ?w @ rev ?b" by simp
  have 2: "list_all is_space ?a" by (auto simp: list_all_iff dest: set_takeWhileD)
  have 3: "list_all is_space (rev ?b)" by (auto simp: list_all_iff dest: set_takeWhileD)
  have 4: "rev ?w = [] \<or> (\<not> is_space (hd (rev ?w)) \<and> \<not> is_space (last (rev ?w)))"
  proof (cases "?w = []")
    case True
    then show ?thesis by simp
  next
    case False
    then have l: "\<not> is_space (last (rev ?w))"
      using hd_dropWhile [of is_space "rev ?u"] by (simp add: last_rev)
    from False have ne: "rev ?w \<noteq> []" by simp
    then have "hd ?u = hd (rev ?w)" using u by (metis hd_append2)
    moreover from ne u have "?u \<noteq> []" by (metis append_is_Nil_conv)
    ultimately have "\<not> is_space (hd (rev ?w))"
      using hd_dropWhile [of is_space t] by simp
    with l show ?thesis by blast
  qed
  from 1 2 3 4 show ?thesis unfolding trimmed_def tr by blast
qed

lemmas parse_eval = parseAIResponse_def confidenceMatch_def askMatch_def greedy_spaces_def
  level_at_def dot_plus_def canonicalize_def is_space_def is_line_terminator_def
  toLowerCase_def trim_def

text \<open>
  Claim C7. \<open>parseAIResponse\<close> is a total function of its text: no operation it
  applies (\<open>match\<close>, \<open>replace\<close>, \<open>toLowerCase\<close>, \<open>trim\<close>) can throw on a string, so
  the model has no error result. The confidence field is absent exactly when
  \<open>/Confidence:\s*(High|Medium|Low)/i\<close> matches nowhere, and is otherwise one of
  \<open>high\<close>, \<open>medium\<close>, \<open>low\<close>; the ask-back field is absent exactly when
  \<open>/Ask-Me-Back:\s*(.+)/i\<close> matches nowhere; the content is the text without the
  first \<open>Confidence:\<close> marker and the rest of its line, then without the first
  \<open>Ask-Me-Back:\<close> marker and the rest of its line, then trimmed.
\<close>

theorem parseAIResponse_tolerant:
  "(parsed_confidence (parseAIResponse text) = None \<longleftrightarrow> \<not> confidence_pattern_matches text) \<and>
   (\<forall>v. parsed_confidence (parseAIResponse text) = Some v \<longrightarrow>
        v = js ''high'' \<or> v = js ''medium'' \<or> v = js ''low'') \<and>
   (parsed_askBackQuestion (parseAIResponse text) = None \<longleftrightarrow> \<not> ask_pattern_matches text) \<and>
   (\<exists>c1 c2. marker_line_removed (js ''Confidence:'') text c1 \<and>
            marker_line_removed (js ''Ask-Me-Back:'') c1 c2 \<and>
            trimmed c2 (parsed_content (parseAIResponse text)))"
proof (intro conjI)
  show "parsed_confidence (parseAIResponse text) = None \<longleftrightarrow> \<not> confidence_pattern_matches text"
    by (simp add: parseAIResponse_def Let_def confidenceMatch_None_iff)
  show "\<forall>v. parsed_confidence (parseAIResponse text) = Some v \<longrightarrow>
        v = js ''high'' \<or> v = js ''medium'' \<or> v = js ''low''"
  proof (intro allI impI)
    fix v assume "parsed_confidence (parseAIResponse text) = Some v"
    then obtain u where "confidenceMatch text = Some u" "v = toLowerCase u"
      by (auto simp: parseAIResponse_def Let_def)
    with confidenceMatch_level [of "text" u]
    show "v = js ''high'' \<or> v = js ''medium'' \<or> v = js ''low''" by simp
  qed
  show "parsed_askBackQuestion (parseAIResponse text) = None \<longleftrightarrow> \<not> ask_pattern_matches text"
    by (simp add: parseAIResponse_def Let_def askMatch_None_iff)
  let ?c1 = "replace_marker_line (js ''Confidence:'') text"
  let ?c2 = "replace_marker_line (js ''Ask-Me-Back:'') ?c1"
  have 1: "marker_line_removed (js ''Confidence:'') text ?c1"
    by (rule replace_marker_line_spec) simp
  have 2: "marker_line_removed (js ''Ask-Me-Back:'') ?c1 ?c2"
    by (rule replace_marker_line_spec) simp
  have 3: "trimmed ?c2 (parsed_content (parseAIResponse text))"
    using trim_spec [of ?c2] by (simp add: parseAIResponse_def Let_def)
  from 1 2 3 show "\<exists>c1 c2. marker_line_removed (js ''Confidence:'') text c1 \<and>
            marker_line_removed (js ''Ask-Me-Back:'') c1 c2 \<and>
            trimmed c2 (parsed_content (parseAIResponse text))" by blast
qed

theorem parseAIResponse_tolerant_witness:
  "parseAIResponse (js ''Plants make food. Confidence: High'' @ [0x0A] @ js ''Ask-Me-Back: Why?'') =
     \<lparr>parsed_content = js ''Plants make food.'',
      parsed_confidence = Some (js ''high''),
      parsed_askBackQuestion = Some (js ''Why?'')\<rparr> \<and>
   confidence_pattern_matches
     (js ''Plants make food. Confidence: High'' @ [0x0A] @ js ''Ask-Me-Back: Why?'') \<and>
   ask_pattern_matches
     (js ''Plants make food. Confidence: High'' @ [0x0A] @ js ''Ask-Me-Back: Why?'') \<and>
   parseAIResponse (js ''  Plants make food. '') =
     \<lparr>parsed_content = js ''Plants make food.'',
      parsed_confidence = None, parsed_askBackQuestion = None\<rparr> \<and>
   \<not> confidence_pattern_matches (js ''  Plants make food. '') \<and>
   \<not> ask_pattern_matches (js ''  Plants make food. '')"
proof -
  let ?t = "js ''Plants make food. Confidence: High'' @ [0x0A] @ js ''Ask-Me-Back: Why?''"
  let ?u = "js ''  Plants make food. ''"
  have e1: "parseAIResponse ?t =
     \<lparr>parsed_content = js ''Plants make food.'',
      parsed_confidence = Some (js ''high''),
      parsed_askBackQuestion = Some (js ''Why?'')\<rparr>"
    by (simp add: parse_eval)
  have e2: "parseAIResponse ?u =
     \<lparr>parsed_content = js ''Plants make food.'',
      parsed_confidence = None, parsed_askBackQuestion = None\<rparr>"
    by (simp add: parse_eval)
  from parseAIResponse_tolerant [of ?t] e1
  have "confidence_pattern_matches ?t \<and> ask_pattern_matches ?t"
    by (simp del: map_eq_conv append.simps list.map)
  moreover from parseAIResponse_tolerant [of ?u] e2
  have "\<not> confidence_pattern_matches ?u \<and> \<not> ask_pattern_matches ?u"
    by (simp del: map_eq_conv append.simps list.map)
  ultimately show ?thesis using e1 e2 by blast
qed

lemma chunk_update_nonempty:
  "messages s \<noteq> [] \<Longrightarrow> \<exists>s'. chunk_update acc s = Inr s'"
  by (simp add: chunk_update_def Let_def)

lemma chunk_update_frame:
  "chunk_update acc s = Inr s' \<Longrightarrow>
     messages s' = messages s \<and> next_ref s' = next_ref s \<and> input s' = input s \<and>
     loading s' = loading s \<and> in_flight s' = in_flight s \<and>
     (\<forall>r. r \<noteq> last (messages s) \<longrightarrow> heap s' r = heap s r)"
  by (auto simp: chunk_update_def Let_def split: if_splits)

lemma chunk_update_twice:
  "chunk_update a s = Inr s1 \<Longrightarrow> chunk_update b s1 = chunk_update b s"
  by (auto simp: chunk_update_def Let_def split: if_splits)

lemma read_loop_Done:
  "messages s \<noteq> [] \<Longrightarrow>
     \<exists>s'. chunk_update (acc @ concat (decoded_chunks decode d chunks)) s = Inr s' \<and>
          read_loop decode d chunks Done acc s =
            LoopDone (acc @ concat (decoded_chunks decode d chunks)) s'"
proof (induction chunks arbitrary: d acc s)
  case Nil
  from chunk_update_nonempty [OF Nil, of "acc @ fst (decode d None)"]
  obtain s' where "chunk_update (acc @ fst (decode d None)) s = Inr s'" by blast
  then show ?case by (simp add: case_prod_beta)
next
  case (Cons c cs)
  let ?a1 = "acc @ fst (decode d (Some c))"
  let ?d1 = "snd (decode d (Some c))"
  from chunk_update_nonempty [OF Cons.prems, of ?a1]
  obtain s1 where s1: "chunk_update ?a1 s = Inr s1" by blast
  then have ne: "messages s1 \<noteq> []" using Cons.prems chunk_update_frame by metis
  from Cons.IH [OF ne, of ?a1 ?d1] obtain s' where
    s': "chunk_update (?a1 @ concat (decoded_chunks decode ?d1 cs)) s1 = Inr s'"
        "read_loop decode ?d1 cs Done ?a1 s1 =
           LoopDone (?a1 @ concat (decoded_chunks decode ?d1 cs)) s'" by blast
  from s'(1) chunk_update_twice [OF s1]
  have "chunk_update (?a1 @ concat (decoded_chunks decode ?d1 cs)) s = Inr s'" by simp
  with s1 s'(2) show ?case by (simp add: case_prod_beta)
qed

lemma read_loop_accumulates:
  "read_loop decode d chunks Done acc s = LoopDone res s' \<Longrightarrow>
     res = acc @ concat (decoded_chunks decode d chunks)"
proof (induction chunks arbitrary: d acc s)
  case Nil
  then show ?case by (auto simp: case_prod_beta Let_def split: sum.splits)
next
  case (Cons c cs)
  from Cons.prems obtain s1 where
    "read_loop decode (snd (decode d (Some c))) cs Done (acc @ fst (decode d (Some c))) s1 =
       LoopDone res s'"
    by (auto simp: case_prod_beta Let_def split: sum.splits)
  from Cons.IH [OF this] show ?case by simp
qed

text \<open>
  Claim C1. In the streaming handler, whatever chunks of bytes the completion stream
  delivers before it ends: the accumulated string is the concatenation of the decoded
  chunks in delivery order, from whichever state and accumulator the loop starts; while
  the chunks arrive only the content of the assistant message is written (its
  confidence and ask-back fields stay absent); and when the handler has run, the
  assistant message that it created holds the content, the confidence and the ask-back
  question that \<open>parseAIResponse\<close> extracts from the whole concatenated text.
\<close>

theorem stream_reassembly:
  assumes "\<not> handleSend_guard s" and "save_user env = None"
    and "fetch env = Streaming chunks Done"
  shows "(\<forall>acc s0 res s1. read_loop decode d chunks Done acc s0 = LoopDone res s1 \<longrightarrow>
            res = acc @ concat (decoded_chunks decode d chunks)) \<and>
         (\<exists>s3 s'.
            read_loop decode d chunks Done []
              (append_message (new_message Assistant [] (t_assistant env) (Some Normal))
                 (handleSend_begin env s s)) =
              LoopDone (concat (decoded_chunks decode d chunks)) s3 \<and>
            heap s3 (Suc (next_ref s)) =
              new_message Assistant (concat (decoded_chunks decode d chunks))
                (t_assistant env) (Some Normal) \<and>
            handleSend decode d env s s = Completed s' \<and>
            heap s' (Suc (next_ref s)) =
              (new_message Assistant
                 (parsed_content (parseAIResponse (concat (decoded_chunks decode d chunks))))
                 (t_assistant env) (Some Normal))
              \<lparr>confidence :=
                 parsed_confidence (parseAIResponse (concat (decoded_chunks decode d chunks))),
               askBackQuestion :=
                 parsed_askBackQuestion (parseAIResponse (concat (decoded_chunks decode d chunks)))\<rparr> \<and>
            take (length (messages s) + 2) (messages s') =
              messages s @ [next_ref s, Suc (next_ref s)])"
proof (rule conjI)
  show "\<forall>acc s0 res s1. read_loop decode d chunks Done acc s0 = LoopDone res s1 \<longrightarrow>
            res = acc @ concat (decoded_chunks decode d chunks)"
    by (blast dest: read_loop_accumulates)
next
  let ?text = "concat (decoded_chunks decode d chunks)"
  let ?P = "parseAIResponse ?text"
  let ?a = "Suc (next_ref s)"
  let ?am = "new_message Assistant [] (t_assistant env) (Some Normal)"
  let ?s1 = "handleSend_begin env s s"
  let ?s2 = "append_message ?am ?s1"
  have m2: "messages ?s2 = messages s @ [next_ref s, ?a]"
    by (simp add: append_message_def handleSend_begin_def)
  have h2: "heap ?s2 ?a = ?am"
    by (simp add: append_message_def handleSend_begin_def)
  have ne: "messages ?s2 \<noteq> []" using m2 by simp
  from read_loop_Done [OF ne, of "[]" decode d chunks] obtain s3 where
    s3: "chunk_update ?text ?s2 = Inr s3"
        "read_loop decode d chunks Done [] ?s2 = LoopDone ?text s3" by auto
  from s3(1) m2 h2 have s3_eq: "s3 = ?s2\<lparr>heap := (heap ?s2)(?a := ?am\<lparr>content := ?text\<rparr>)\<rparr>"
    by (simp add: chunk_update_def Let_def new_message_def)
  have h3: "heap s3 ?a = new_message Assistant ?text (t_assistant env) (Some Normal)"
    by (simp add: s3_eq new_message_def)
  have m3: "messages s3 = messages s @ [next_ref s, ?a]"
    by (simp add: s3_eq m2)
  let ?s4 = "s3\<lparr>heap := (heap s3)(?a := (heap s3 ?a)
                    \<lparr>content := parsed_content ?P,
                     confidence := parsed_confidence ?P,
                     askBackQuestion := parsed_askBackQuestion ?P\<rparr>)\<rparr>"
  have f: "final_update ?P s3 = Inr ?s4"
    using m3 h3 by (simp add: final_update_def Let_def new_message_def)
  have h4: "heap ?s4 ?a =
      (new_message Assistant (parsed_content ?P) (t_assistant env) (Some Normal))
        \<lparr>confidence := parsed_confidence ?P, askBackQuestion := parsed_askBackQuestion ?P\<rparr>"
    by (simp add: h3 new_message_def)
  have m4: "messages ?s4 = messages s @ [next_ref s, ?a]" by (simp add: m3)
  have n4: "next_ref ?s4 = Suc ?a"
    by (simp add: s3_eq append_message_def handleSend_begin_def)
  define s' where "s' = (case save_ai env of
      None \<Rightarrow> ?s4\<lparr>loading := False, in_flight := in_flight ?s4 - 1\<rparr>
    | Some e \<Rightarrow> (append_message (errorMessage e (t_error env)) ?s4)
                  \<lparr>loading := False, in_flight := in_flight ?s4 - 1\<rparr>)"
  have settle: "handleSend_settle decode d env ?s1 = Completed s'"
    using assms(3) s3(2) f
    by (simp add: handleSend_settle_def Let_def catch_finally_def s'_def split: option.splits)
  have run: "handleSend decode d env s s = Completed s'"
    using assms(1,2) settle by (simp add: handleSend_def Let_def)
  have h': "heap s' ?a = heap ?s4 ?a"
    using n4 by (simp add: s'_def append_message_def split: option.splits)
  have m': "take (length (messages s) + 2) (messages s') = messages s @ [next_ref s, ?a]"
    using m4 by (simp add: s'_def append_message_def split: option.splits)
  from s3(2) h3 run h' h4 m'
  show "\<exists>s3 s'.
            read_loop decode d chunks Done [] ?s2 = LoopDone ?text s3 \<and>
            heap s3 ?a = new_message Assistant ?text (t_assistant env) (Some Normal) \<and>
            handleSend decode d env s s = Completed s' \<and>
            heap s' ?a =
              (new_message Assistant (parsed_content ?P) (t_assistant env) (Some Normal))
              \<lparr>confidence := parsed_confidence ?P,
               askBackQuestion := parsed_askBackQuestion ?P\<rparr> \<and>
            take (length (messages s) + 2) (messages s') = messages s @ [next_ref s, ?a]"
    by (intro exI [of _ s3] exI [of _ s']) (simp only: simp_thms)
qed

theorem stream_reassembly_witness:
  "\<not> handleSend_guard (blank_page (js ''What is photosynthesis?'')) \<and>
   save_user (streaming_env [ascii ''Pho'', ascii ''to'', ascii ''synthesis is food. Confidence: High''] Done) = None \<and>
   (\<exists>s'. handleSend ascii_decoder ()
            (streaming_env [ascii ''Pho'', ascii ''to'', ascii ''synthesis is food. Confidence: High''] Done)
            (blank_page (js ''What is photosynthesis?''))
            (blank_page (js ''What is photosynthesis?'')) = Completed s' \<and>
         content (heap s' 1) = js ''Photosynthesis is food.'' \<and>
         confidence (heap s' 1) = Some (js ''high'') \<and>
         askBackQuestion (heap s' 1) = None)"
proof -
  let ?chunks = "[ascii ''Pho'', ascii ''to'', ascii ''synthesis is food. Confidence: High'']"
  let ?env = "streaming_env ?chunks Done"
  let ?s = "blank_page (js ''What is photosynthesis?'')"
  have g: "\<not> handleSend_guard ?s"
    by (simp add: handleSend_guard_def blank_page_def trim_def is_space_def is_line_terminator_def)
  have u: "save_user ?env = None" by (simp add: streaming_env_def)
  have f: "fetch ?env = Streaming ?chunks Done" by (simp add: streaming_env_def)
  have c: "concat (decoded_chunks ascii_decoder () ?chunks) =
             js ''Photosynthesis is food. Confidence: High''"
    by (simp add: ascii_decoder_def)
  have p: "parseAIResponse (js ''Photosynthesis is food. Confidence: High'') =
     \<lparr>parsed_content = js ''Photosynthesis is food.'',
      parsed_confidence = Some (js ''high''), parsed_askBackQuestion = None\<rparr>"
    by (simp add: parse_eval)
  from stream_reassembly [OF g u f, of ascii_decoder "()"]
  obtain s' where s': "handleSend ascii_decoder () ?env ?s ?s = Completed s'"
    "heap s' (Suc (next_ref ?s)) =
       (new_message Assistant
          (parsed_content (parseAIResponse (concat (decoded_chunks ascii_decoder () ?chunks))))
          (t_assistant ?env) (Some Normal))
       \<lparr>confidence :=
          parsed_confidence (parseAIResponse (concat (decoded_chunks ascii_decoder () ?chunks))),
        askBackQuestion :=
          parsed_askBackQuestion (parseAIResponse (concat (decoded_chunks ascii_decoder () ?chunks)))\<rparr>"
    by blast
  have n: "Suc (next_ref ?s) = 1" by (simp add: blank_page_def)
  from s'(2) have "content (heap s' 1) = js ''Photosynthesis is food.'' \<and>
         confidence (heap s' 1) = Some (js ''high'') \<and>
         askBackQuestion (heap s' 1) = None"
    unfolding n c p by (simp add: new_message_def)
  with g u s'(1) show ?thesis by blast
qed

lemma wf_page_append_message: "wf_page s \<Longrightarrow> wf_page (append_message m s)"
  by (auto simp: wf_page_def append_message_def)

lemma wf_page_chunk_update: "wf_page s \<Longrightarrow> chunk_update acc s = Inr s' \<Longrightarrow> wf_page s'"
  by (auto simp: wf_page_def chunk_update_def Let_def split: if_splits)

lemma wf_page_handleSend_begin: "wf_page s \<Longrightarrow> wf_page (handleSend_begin env render s)"
  by (auto simp: wf_page_def handleSend_begin_def append_message_def Let_def)

lemma wf_page_blank: "wf_page (blank_page typed)"
  by (simp add: wf_page_def blank_page_def)

lemma earlier_not_last:
  "distinct xs \<Longrightarrow> Suc i < length xs \<Longrightarrow> xs ! i \<noteq> last xs"
proof -
  assume d: "distinct xs" and i: "Suc i < length xs"
  then have "xs \<noteq> []" by auto
  then have "last xs = xs ! (length xs - 1)" by (rule last_conv_nth)
  moreover have "i \<noteq> length xs - 1" "i < length xs" "length xs - 1 < length xs"
    using i by simp_all
  ultimately show ?thesis using d by (simp add: nth_eq_iff_index_eq)
qed

lemma read_loop_frame:
  "read_loop decode d chunks ending acc s = LoopDone res s' \<or>
   read_loop decode d chunks ending acc s = LoopThrown res s' \<Longrightarrow>
     messages s' = messages s \<and> (\<forall>r. r \<noteq> last (messages s) \<longrightarrow> heap s' r = heap s r)"
proof (induction decode d chunks ending acc s rule: read_loop.induct)
  case (1 decode d acc s)
  then show ?case
    by (auto simp: case_prod_beta Let_def split: sum.splits dest: chunk_update_frame)
next
  case (2 decode d e acc s)
  then show ?case by simp
next
  case (3 decode d c cs ending acc s)
  let ?a1 = "acc @ fst (decode d (Some c))"
  from "3.prems" obtain s1 where s1: "chunk_update ?a1 s = Inr s1"
    and r: "read_loop decode (snd (decode d (Some c))) cs ending ?a1 s1 = LoopDone res s' \<or>
            read_loop decode (snd (decode d (Some c))) cs ending ?a1 s1 = LoopThrown res s'"
    by (auto simp: case_prod_beta Let_def split: sum.splits)
  have "messages s' = messages s1 \<and> (\<forall>r. r \<noteq> last (messages s1) \<longrightarrow> heap s' r = heap s1 r)"
    using "3.IH" [OF _ _ _ s1 r] by (simp add: prod_eq_iff)
  with chunk_update_frame [OF s1] show ?case by simp
qed

text \<open>
  Claim C10. A chunk update that goes through leaves the array of references as it
  is; when the references of the array are distinct, the message at every index before
  the last is unchanged, as is every object other than the last message; the last
  message has its content overwritten when it is an assistant message of type
  \<open>normal\<close> and is otherwise unchanged, in which case the whole state is unchanged.
  The same holds for the whole loop: whatever it reads, the messages before the last
  are the same afterwards.
\<close>

theorem chunk_update_frame_effect:
  assumes "chunk_update accumulatedContent s = Inr s'" and "distinct (messages s)"
  shows "messages s' = messages s \<and>
         (\<forall>i. Suc i < length (messages s) \<longrightarrow>
              heap s' (messages s' ! i) = heap s (messages s ! i)) \<and>
         (\<forall>r. r \<noteq> last (messages s) \<longrightarrow> heap s' r = heap s r) \<and>
         heap s' (last (messages s)) =
           (if role (heap s (last (messages s))) = Assistant \<and>
               type (heap s (last (messages s))) = Some Normal
            then (heap s (last (messages s)))\<lparr>content := accumulatedContent\<rparr>
            else heap s (last (messages s))) \<and>
         (\<not> (role (heap s (last (messages s))) = Assistant \<and>
             type (heap s (last (messages s))) = Some Normal) \<longrightarrow> s' = s) \<and>
         (\<forall>decode d chunks ending acc res s2.
            read_loop decode (d::'d) chunks ending acc s = LoopDone res s2 \<longrightarrow>
              messages s2 = messages s \<and>
              (\<forall>i. Suc i < length (messages s) \<longrightarrow>
                   heap s2 (messages s ! i) = heap s (messages s ! i)))"
proof -
  note fr = chunk_update_frame [OF assms(1)]
  have 1: "messages s' = messages s" using fr by simp
  have 3: "\<forall>r. r \<noteq> last (messages s) \<longrightarrow> heap s' r = heap s r" using fr by simp
  have 2: "\<forall>i. Suc i < length (messages s) \<longrightarrow>
              heap s' (messages s' ! i) = heap s (messages s ! i)"
    using 1 3 earlier_not_last [OF assms(2)] by simp
  have 4: "heap s' (last (messages s)) =
           (if role (heap s (last (messages s))) = Assistant \<and>
               type (heap s (last (messages s))) = Some Normal
            then (heap s (last (messages s)))\<lparr>content := accumulatedContent\<rparr>
            else heap s (last (messages s)))"
    using assms(1) by (auto simp: chunk_update_def Let_def split: if_splits)
  have 5: "\<not> (role (heap s (last (messages s))) = Assistant \<and>
             type (heap s (last (messages s))) = Some Normal) \<longrightarrow> s' = s"
    using assms(1) by (auto simp: chunk_update_def Let_def split: if_splits)
  have 6: "\<forall>decode d chunks ending acc res s2.
            read_loop decode (d::'d) chunks ending acc s = LoopDone res s2 \<longrightarrow>
              messages s2 = messages s \<and>
              (\<forall>i. Suc i < length (messages s) \<longrightarrow>
                   heap s2 (messages s ! i) = heap s (messages s ! i))"
  proof (intro allI impI)
    fix decode and d :: 'd and chunks ending acc res s2
    assume "read_loop decode d chunks ending acc s = LoopDone res s2"
    then have "messages s2 = messages s \<and> (\<forall>r. r \<noteq> last (messages s) \<longrightarrow> heap s2 r = heap s r)"
      using read_loop_frame [of decode d chunks ending acc s res s2] by simp
    then show "messages s2 = messages s \<and>
              (\<forall>i. Suc i < length (messages s) \<longrightarrow>
                   heap s2 (messages s ! i) = heap s (messages s ! i))"
      using earlier_not_last [OF assms(2)] by simp
  qed
  from 1 2 3 4 5 6 show ?thesis by (intro conjI)
qed


theorem chunk_update_frame_effect_witness:
  "distinct (messages (append_message (new_message Assistant [] 2 (Some Normal))
              (append_message (new_message User (js ''Hi'') 1 None) (blank_page [])))) \<and>
   (\<exists>s'. chunk_update (js ''Pho'')
            (append_message (new_message Assistant [] 2 (Some Normal))
              (append_message (new_message User (js ''Hi'') 1 None) (blank_page []))) = Inr s' \<and>
         messages s' = [0, 1] \<and>
         heap s' 0 = new_message User (js ''Hi'') 1 None \<and>
         heap s' 1 = new_message Assistant (js ''Pho'') 2 (Some Normal))"
proof -
  let ?s = "append_message (new_message Assistant [] 2 (Some Normal))
              (append_message (new_message User (js ''Hi'') 1 None) (blank_page []))"
  have m: "messages ?s = [0, 1]" by (simp add: append_message_def blank_page_def)
  have d: "distinct (messages ?s)" by (simp add: append_message_def blank_page_def)
  obtain s' where s': "chunk_update (js ''Pho'') ?s = Inr s'"
    using chunk_update_nonempty [of ?s "js ''Pho''"] m by auto
  note F = chunk_update_frame_effect [OF s' d]
  note f1 = F [THEN conjunct1]
  note f2 = F [THEN conjunct2, THEN conjunct1]
  note f4 = F [THEN conjunct2, THEN conjunct2, THEN conjunct2, THEN conjunct1]
  from f1 m have 1: "messages s' = [0, 1]" by simp
  from f2 [rule_format, of 0] have 2: "heap s' 0 = new_message User (js ''Hi'') 1 None"
    unfolding 1 m by (simp add: append_message_def blank_page_def)
  from f4 have 3: "heap s' 1 = new_message Assistant (js ''Pho'') 2 (Some Normal)"
    unfolding m by (simp add: append_message_def blank_page_def new_message_def)
  from d s' 1 2 3 show ?thesis by blast
qed

lemma read_loop_control:
  "read_loop decode d chunks ending acc s = LoopDone res s' \<or>
   read_loop decode d chunks ending acc s = LoopThrown res s' \<Longrightarrow>
     loading s' = loading s \<and> in_flight s' = in_flight s"
proof (induction decode d chunks ending acc s rule: read_loop.induct)
  case (1 decode d acc s)
  then show ?case
    by (auto simp: case_prod_beta Let_def split: sum.splits dest: chunk_update_frame)
next
  case (2 decode d e acc s)
  then show ?case by simp
next
  case (3 decode d c cs ending acc s)
  let ?a1 = "acc @ fst (decode d (Some c))"
  from "3.prems" obtain s1 where s1: "chunk_update ?a1 s = Inr s1"
    and r: "read_loop decode (snd (decode d (Some c))) cs ending ?a1 s1 = LoopDone res s' \<or>
            read_loop decode (snd (decode d (Some c))) cs ending ?a1 s1 = LoopThrown res s'"
    by (auto simp: case_prod_beta Let_def split: sum.splits)
  have "loading s' = loading s1 \<and> in_flight s' = in_flight s1"
    using "3.IH" [OF _ _ _ s1 r] by (simp add: prod_eq_iff)
  with chunk_update_frame [OF s1] show ?case by simp
qed

lemma final_update_control:
  "final_update parsed s = Inr s' \<Longrightarrow> loading s' = loading s \<and> in_flight s' = in_flight s"
  by (auto simp: final_update_def Let_def split: if_splits)

lemma catch_finally_control:
  "catch_finally env e s = Completed s' \<Longrightarrow> \<not> loading s' \<and> in_flight s' = in_flight s - 1"
  by (auto simp: catch_finally_def append_message_def)

lemma handleSend_settle_control:
  assumes "handleSend_settle decode d env s = Completed s'"
  shows "\<not> loading s' \<and> in_flight s' = in_flight s - 1"
proof (cases "fetch env")
  case (FetchRejected e)
  with assms show ?thesis by (auto simp: handleSend_settle_def dest: catch_finally_control)
next
  case (NotOk x)
  with assms show ?thesis
    by (cases x) (auto simp: handleSend_settle_def dest: catch_finally_control)
next
  case NoBody
  with assms show ?thesis by (auto simp: handleSend_settle_def dest: catch_finally_control)
next
  case (Streaming chunks ending)
  let ?s2 = "append_message (new_message Assistant [] (t_assistant env) (Some Normal)) s"
  have c2: "loading ?s2 = loading s \<and> in_flight ?s2 = in_flight s"
    by (simp add: append_message_def)
  show ?thesis
  proof (cases "read_loop decode d chunks ending [] ?s2")
    case (LoopRenderError e)
    with assms Streaming show ?thesis by (simp add: handleSend_settle_def)
  next
    case (LoopThrown e s3)
    with read_loop_control [of decode d chunks ending "[]" ?s2 e s3] c2
    have "in_flight s3 = in_flight s" by simp
    moreover from assms Streaming LoopThrown have "catch_finally env e s3 = Completed s'"
      by (simp add: handleSend_settle_def)
    ultimately show ?thesis using catch_finally_control by fastforce
  next
    case (LoopDone acc s3)
    with read_loop_control [of decode d chunks ending "[]" ?s2 acc s3] c2
    have c3: "in_flight s3 = in_flight s" by simp
    show ?thesis
    proof (cases "final_update (parseAIResponse acc) s3")
      case (Inl e)
      with assms Streaming LoopDone show ?thesis by (simp add: handleSend_settle_def)
    next
      case (Inr s4)
      with final_update_control c3 have c4: "in_flight s4 = in_flight s" by fastforce
      show ?thesis
      proof (cases "save_ai env")
        case None
        with assms Streaming LoopDone Inr c4 show ?thesis
          by (auto simp: handleSend_settle_def)
      next
        case (Some e)
        with assms Streaming LoopDone Inr have "catch_finally env e s4 = Completed s'"
          by (simp add: handleSend_settle_def)
        with c4 show ?thesis using catch_finally_control by fastforce
      qed
    qed
  qed
qed

lemma settle_json_control:
  "\<not> loading (settle_json build t t_err outcome s) \<and>
   in_flight (settle_json build t t_err outcome s) = in_flight s - 1"
  by (cases outcome) (auto simp: settle_json_def Let_def append_message_def split: option.splits)

lemma fold_append_message_control:
  "loading (fold append_message ms s) = loading s \<and>
   in_flight (fold append_message ms s) = in_flight s"
  by (induction ms arbitrary: s) (simp_all add: append_message_def)

lemma step_one_request:
  assumes "one_request s" and "step e s = Some s'"
  shows "one_request s'"
proof (cases e)
  case (SetInput v)
  with assms show ?thesis by (auto simp: one_request_def)
next
  case (LoadUserMemory ms)
  with assms show ?thesis
    by (auto simp: one_request_def fold_append_message_control split: if_splits)
next
  case (Send env)
  with assms show ?thesis
    by (auto simp: one_request_def handleSend_guard_def handleSend_begin_def
        append_message_def Let_def split: if_splits)
next
  case (SendSettles decode d env)
  with assms have "in_flight s \<noteq> 0" "handleSend_settle decode d env s = Completed s'"
    by (auto split: if_splits handler_result.splits)
  with handleSend_settle_control [of decode d env s s'] assms(1) show ?thesis
    by (auto simp: one_request_def)
next
  case (TwoMinConcept t)
  with assms show ?thesis
    by (auto simp: one_request_def handle2MinConcept_begin_def append_message_def Let_def
        split: if_splits)
next
  case (TwoMinConceptSettles tp t t_err outcome)
  with assms have "in_flight s \<noteq> 0" "s' = settle_json (conceptMessage tp) t t_err outcome s"
    by (auto split: if_splits)
  with settle_json_control [of "conceptMessage tp" t t_err outcome s] assms(1) show ?thesis
    by (auto simp: one_request_def)
next
  case WeaknessAnalysis
  with assms show ?thesis
    by (auto simp: one_request_def handleWeaknessAnalysis_begin_def split: if_splits)
next
  case (WeaknessAnalysisSettles t t_err outcome)
  with assms have "in_flight s \<noteq> 0" "s' = settle_json weaknessMessage t t_err outcome s"
    by (auto split: if_splits)
  with settle_json_control [of weaknessMessage t t_err outcome s] assms(1) show ?thesis
    by (auto simp: one_request_def)
next
  case NewChat
  with assms show ?thesis by (auto simp: one_request_def)
next
  case (OnReset i ms)
  with assms show ?thesis by (auto simp: one_request_def)
qed

lemma run_one_request:
  "one_request s \<Longrightarrow> run es s = Some s' \<Longrightarrow> one_request s'"
proof (induction es arbitrary: s)
  case Nil
  then show ?case by simp
next
  case (Cons e es)
  from Cons.prems(2) obtain s1 where s1: "step e s = Some s1" "run es s1 = Some s'"
    by (auto split: option.splits)
  from step_one_request [OF Cons.prems(1) s1(1)] Cons.IH s1(2) show ?case by blast
qed

lemma step_while_loading:
  assumes "loading s" and "step e s = Some s'"
  shows "in_flight s' \<le> in_flight s"
proof (cases e)
  case (SendSettles decode d env)
  with assms have "handleSend_settle decode d env s = Completed s'"
    by (auto split: if_splits handler_result.splits)
  with handleSend_settle_control [of decode d env s s'] show ?thesis by simp
next
  case (TwoMinConceptSettles tp t t_err outcome)
  with assms have "s' = settle_json (conceptMessage tp) t t_err outcome s"
    by (auto split: if_splits)
  with settle_json_control [of "conceptMessage tp" t t_err outcome s] show ?thesis by simp
next
  case (WeaknessAnalysisSettles t t_err outcome)
  with assms have "s' = settle_json weaknessMessage t t_err outcome s"
    by (auto split: if_splits)
  with settle_json_control [of weaknessMessage t t_err outcome s] show ?thesis by simp
next
  case (LoadUserMemory ms)
  with assms show ?thesis by (auto simp: fold_append_message_control split: if_splits)
qed (use assms in \<open>auto simp: handleSend_guard_def handle2MinConcept_begin_def
      handleWeaknessAnalysis_begin_def append_message_def Let_def split: if_splits\<close>)

text \<open>
  Under the events that call the handler of the latest render: when \<open>loading\<close> is
  true or the input is blank, \<open>handleSend\<close> returns the state it was given, and the
  submit button is disabled. While \<open>loading\<close> is true no such event starts a
  request: the number of requests in flight does not grow. In every state that the page
  reaches by such events, at most one request is in flight, and \<open>loading\<close> is true
  exactly when one is.
\<close>

lemma latest_render_single_request:
  "(loading s \<or> trim (input s) = [] \<longrightarrow>
      handleSend decode d env s s = Completed s \<and> step (Send env :: 'd event) s = Some s \<and>
      submit_disabled s) \<and>
   (loading s \<longrightarrow> (\<forall>(e :: 'd event) s'. step e s = Some s' \<longrightarrow> in_flight s' \<le> in_flight s)) \<and>
   (\<forall>(es :: 'd event list) s'. run es (blank_page []) = Some s' \<longrightarrow>
      in_flight s' \<le> 1 \<and> (loading s' \<longleftrightarrow> in_flight s' = 1))"
proof (intro conjI impI allI)
  assume "loading s \<or> trim (input s) = []"
  then show "handleSend decode d env s s = Completed s" "step (Send env :: 'd event) s = Some s"
    "submit_disabled s"
    by (auto simp: handleSend_def handleSend_guard_def submit_disabled_def)
next
  fix e :: "'d event" and s'
  assume "loading s" "step e s = Some s'"
  then show "in_flight s' \<le> in_flight s" by (rule step_while_loading)
next
  fix es :: "'d event list" and s'
  assume r: "run es (blank_page []) = Some s'"
  have "one_request (blank_page [])" by (simp add: one_request_def blank_page_def)
  from run_one_request [OF this r]
  show "in_flight s' \<le> 1" "loading s' \<longleftrightarrow> in_flight s' = 1"
    by (simp_all add: one_request_def)
qed

lemma latest_render_single_request_example:
  "\<exists>s'. run [SetInput (js ''Hi''), Send (streaming_env [ascii ''Hello''] Done),
             SetInput (js ''again''), Send (streaming_env [] Done) :: unit event]
          (blank_page []) = Some s' \<and>
        loading s' \<and> in_flight s' = 1 \<and> length (messages s') = 1 \<and>
        submit_disabled s' \<and>
        handleSend ascii_decoder () (streaming_env [] Done) s' s' = Completed s'"
proof -
  let ?es = "[SetInput (js ''Hi''), Send (streaming_env [ascii ''Hello''] Done),
             SetInput (js ''again''), Send (streaming_env [] Done) :: unit event]"
  obtain s' where r: "run ?es (blank_page []) = Some s'" and l: "loading s'"
    and m: "length (messages s') = 1"
    by (simp add: blank_page_def handleSend_guard_def handleSend_begin_def append_message_def
        trim_def is_space_def is_line_terminator_def Let_def)
  note T = latest_render_single_request [of s' ascii_decoder "()" "streaming_env [] Done"]
  from T l have a: "handleSend ascii_decoder () (streaming_env [] Done) s' s' = Completed s'"
    "submit_disabled s'" by blast+
  from T r l have "in_flight s' = 1" by blast
  with r l m a show ?thesis by blast
qed

lemmas run_eval = requests_in_flight_def is_loading_def user_texts_def analyzeIntent_def
  lowerText_def handleSend_guard_def handleSend_begin_def append_message_def blank_page_def
  streaming_env_def new_message_def trim_def is_space_def is_line_terminator_def Let_def

text \<open>
  Claim C8. While a completion request is outstanding no new request can start, so that
  at most one completion stream is open at any time. The guard of \<open>handleSend\<close> and
  the disabled submit button keep this for the handler of the latest render (the lemma
  above), but not for the call that \<open>handleVoiceTranscript\<close> defers by 500 ms: that
  \<open>handleSend\<close> reads the \<open>input\<close> and the \<open>loading\<close> of the render that scheduled
  it. With "explain gravity" typed, the transcript "hi" is a greeting and schedules the
  deferred send; the user presses Enter, which sends "hi" and sets \<open>loading\<close>; then
  the timer fires, and the deferred \<open>handleSend\<close> passes its guard, appends "explain
  gravity" and starts a second request while the first is in flight.
\<close>

theorem deferred_send_second_request:
  "is_loading
     (runs [Latest (SetInput (js ''explain gravity'')), VoiceTranscript (js ''hi'') (js ''hi''),
            Latest (Send (streaming_env [] Done)) :: unit run_event]
        \<lparr>page = blank_page [], timers = []\<rparr>) \<and>
   requests_in_flight
     (runs [Latest (SetInput (js ''explain gravity'')), VoiceTranscript (js ''hi'') (js ''hi''),
            Latest (Send (streaming_env [] Done)) :: unit run_event]
        \<lparr>page = blank_page [], timers = []\<rparr>) = 1 \<and>
   requests_in_flight
     (runs [Latest (SetInput (js ''explain gravity'')), VoiceTranscript (js ''hi'') (js ''hi''),
            Latest (Send (streaming_env [] Done)),
            TimerFires 0 (streaming_env [] Done) :: unit run_event]
        \<lparr>page = blank_page [], timers = []\<rparr>) = 2 \<and>
   user_texts
     (runs [Latest (SetInput (js ''explain gravity'')), VoiceTranscript (js ''hi'') (js ''hi''),
            Latest (Send (streaming_env [] Done)),
            TimerFires 0 (streaming_env [] Done) :: unit run_event]
        \<lparr>page = blank_page [], timers = []\<rparr>) = [js ''hi'', js ''explain gravity'']"
  by (simp add: run_eval)

theorem deferred_send_second_request_witness:
  "1 < requests_in_flight
     (runs [Latest (SetInput (js ''explain gravity'')), VoiceTranscript (js ''hi'') (js ''hi''),
            Latest (Send (streaming_env [] Done)),
            TimerFires 0 (streaming_env [] Done) :: unit run_event]
        \<lparr>page = blank_page [], timers = []\<rparr>)"
  using deferred_send_second_request by simp

lemma autoGenerateTitle_frame:
  "hist_messages (autoGenerateTitle g s) = hist_messages s \<and>
   hist_input (autoGenerateTitle g s) = hist_input s \<and>
   hist_loading (autoGenerateTitle g s) = hist_loading s \<and>
   currentSessionId (autoGenerateTitle g s) = currentSessionId s \<and>
   hasGeneratedTitle (autoGenerateTitle g s) = hasGeneratedTitle s \<and>
   user (autoGenerateTitle g s) = user s \<and> supabase (autoGenerateTitle g s) = supabase s"
  by (simp add: autoGenerateTitle_def Let_def split: option.splits sum.splits)


lemma title_effect_frame:
  "hist_messages (title_effect g s) = hist_messages s \<and>
   hist_input (title_effect g s) = hist_input s \<and>
   hist_loading (title_effect g s) = hist_loading s \<and>
   currentSessionId (title_effect g s) = currentSessionId s \<and>
   user (title_effect g s) = user s \<and> supabase (title_effect g s) = supabase s"
  by (simp add: title_effect_def autoGenerateTitle_frame)

lemma setMessages_frame:
  "hist_messages (setMessages g f s) = f (hist_messages s) \<and>
   hist_input (setMessages g f s) = hist_input s \<and>
   hist_loading (setMessages g f s) = hist_loading s \<and>
   currentSessionId (setMessages g f s) = currentSessionId s \<and>
   user (setMessages g f s) = user s \<and> supabase (setMessages g f s) = supabase s"
  by (simp add: setMessages_def title_effect_frame)


lemma setMessages_short:
  "length (f (hist_messages s)) < 2 \<Longrightarrow>
     hasGeneratedTitle (setMessages g f s) = hasGeneratedTitle s \<and>
     generateTitle_calls (setMessages g f s) = generateTitle_calls s"
  by (simp add: setMessages_def title_effect_def)





lemma rotate_session_flag:
  "\<not> hasGeneratedTitle (rotate_session g newSessionId s) \<and>
   hist_messages (rotate_session g newSessionId s) = [] \<and>
   currentSessionId (rotate_session g newSessionId s) = newSessionId \<and>
   generateTitle_calls (rotate_session g newSessionId s) = generateTitle_calls s"
  by (simp add: rotate_session_def setMessages_frame setMessages_short)

lemmas hist_eval = hist_handle2MinConcept_begin_def hist_handle2MinConcept_arrive_def
  hist_concept_topic_def hist_handleSend_begin_def hist_handleSend_arrive_def hist_reply_def
  error_field_def
  rotate_session_def setMessages_def title_effect_def autoGenerateTitle_def
  loadCurrentSession_done_def handleSelectChat_def
  new_message_def conceptMessage_def errorMessage_def fresh_history_page_def echo_title_def
  Let_def




lemma hist_handleSend_begin_session:
  "currentSessionId (hist_handleSend_begin g t s) = currentSessionId s"
  by (simp add: hist_handleSend_begin_def Let_def setMessages_frame)

lemma loadCurrentSession_done_NoItem:
  "hist_messages s = [] \<Longrightarrow>
     hist_messages (loadCurrentSession_done g NoItem s) = [] \<and>
     currentSessionId (loadCurrentSession_done g NoItem s) = currentSessionId s"
  by (simp add: loadCurrentSession_done_def setMessages_frame)

text \<open>
  Claim C2, as amended. The handler keeps no session id of its request and its append
  path has no guard: when the response arrives, the reply (or the error notice) is
  appended to the end of whatever transcript is current, and the session id stays as it
  is. In particular, when New Chat rotates the session between the dispatch of a
  request and the arrival of its response, and the load of the new, empty session has
  finished, the transcript of the new session consists of that late reply.
\<close>

theorem late_response_appended:
  "hist_messages (hist_handleSend_arrive g t t_err outcome s) =
     hist_messages s @ [hist_reply t t_err outcome] \<and>
   currentSessionId (hist_handleSend_arrive g t t_err outcome s) = currentSessionId s \<and>
   hist_messages
     (hist_run g [HistSend t0, HistNewChat newSessionId, HistSessionLoaded NoItem,
                  HistSendArrives t t_err outcome] s) =
     [hist_reply t t_err outcome] \<and>
   currentSessionId
     (hist_run g [HistSend t0, HistNewChat newSessionId, HistSessionLoaded NoItem,
                  HistSendArrives t t_err outcome] s) =
     newSessionId"
proof -
  let ?s2 = "rotate_session g newSessionId (hist_handleSend_begin g t0 s)"
  have "hist_messages ?s2 = []" "currentSessionId ?s2 = newSessionId"
    by (simp_all add: rotate_session_flag)
  with loadCurrentSession_done_NoItem [of ?s2 g] show ?thesis
    by (simp add: hist_handleSend_arrive_def setMessages_frame)
qed

theorem late_response_appended_witness:
  "hist_messages
     (hist_run echo_title
        [HistSend 1, HistNewChat (js ''chat-2''), HistSessionLoaded NoItem,
         HistSendArrives 2 3 (Body None (Some (js ''Hello. Confidence: High'')))]
        ((fresh_history_page (js ''chat-1''))\<lparr>hist_input := js ''Hi''\<rparr>)) =
     [(new_message Assistant (js ''Hello.'') 2 (Some Normal))\<lparr>confidence := Some (js ''high'')\<rparr>]"
proof -
  have "hist_reply 2 3 (Body None (Some (js ''Hello. Confidence: High''))) =
      (new_message Assistant (js ''Hello.'') 2 (Some Normal))\<lparr>confidence := Some (js ''high'')\<rparr>"
    by (simp add: hist_reply_def error_field_def parse_eval new_message_def)
  with late_response_appended [of echo_title 2 3
      "Body None (Some (js ''Hello. Confidence: High''))"
      "(fresh_history_page (js ''chat-1''))\<lparr>hist_input := js ''Hi''\<rparr>" 1 "js ''chat-2''"]
  show ?thesis by simp
qed

text \<open>
  The claim as stated fails: the user sends "Hi" in session \<open>chat-1\<close>, clicks New Chat,
  which rotates the session to \<open>chat-2\<close> and empties the transcript, the store has no
  item for \<open>chat-2\<close>, and then the response to "Hi" arrives. It is appended to the
  transcript of \<open>chat-2\<close>.
\<close>

theorem late_response_leaks_counterexample:
  "currentSessionId
     (hist_run echo_title
        [HistSessionLoaded NoItem, HistSetInput (js ''Hi''), HistSend 1,
         HistNewChat (js ''chat-2''), HistSessionLoaded NoItem,
         HistSendArrives 2 3 (Body None (Some (js ''Hello'')))]
        (fresh_history_page (js ''chat-1''))) = js ''chat-2'' \<and>
   hist_messages
     (hist_run echo_title
        [HistSessionLoaded NoItem, HistSetInput (js ''Hi''), HistSend 1,
         HistNewChat (js ''chat-2''), HistSessionLoaded NoItem,
         HistSendArrives 2 3 (Body None (Some (js ''Hello'')))]
        (fresh_history_page (js ''chat-1''))) =
     [new_message Assistant (js ''Hello'') 2 (Some Normal)] \<and>
   currentSessionId
     (hist_run echo_title [HistSessionLoaded NoItem, HistSetInput (js ''Hi''), HistSend 1]
        (fresh_history_page (js ''chat-1''))) = js ''chat-1'' \<and>
   hist_loading
     (hist_run echo_title [HistSessionLoaded NoItem, HistSetInput (js ''Hi''), HistSend 1]
        (fresh_history_page (js ''chat-1'')))"
  by (simp add: hist_eval parse_eval trim_def is_space_def is_line_terminator_def)

lemma chunk_update_role:
  "chunk_update acc s = Inr s' \<Longrightarrow> role (heap s' r) = role (heap s r)"
  by (auto simp: chunk_update_def Let_def split: if_splits)

lemma read_loop_ReadFailed:
  "messages s \<noteq> [] \<Longrightarrow>
     \<exists>s'. read_loop decode d chunks (ReadFailed e) acc s = LoopThrown e s' \<and>
          messages s' = messages s \<and> next_ref s' = next_ref s \<and>
          in_flight s' = in_flight s \<and>
          (\<forall>r. r \<noteq> last (messages s) \<longrightarrow> heap s' r = heap s r) \<and>
          (\<forall>r. role (heap s' r) = role (heap s r))"
proof (induction chunks arbitrary: d acc s)
  case Nil
  show ?case by simp
next
  case (Cons c cs)
  let ?a1 = "acc @ fst (decode d (Some c))"
  from chunk_update_nonempty [OF Cons.prems, of ?a1]
  obtain s1 where s1: "chunk_update ?a1 s = Inr s1" by blast
  note f1 = chunk_update_frame [OF s1]
  from f1 Cons.prems have ne: "messages s1 \<noteq> []" by simp
  from Cons.IH [OF ne, of "snd (decode d (Some c))" ?a1] obtain s' where
    s': "read_loop decode (snd (decode d (Some c))) cs (ReadFailed e) ?a1 s1 = LoopThrown e s'"
    "messages s' = messages s1" "next_ref s' = next_ref s1" "in_flight s' = in_flight s1"
    "\<forall>r. r \<noteq> last (messages s1) \<longrightarrow> heap s' r = heap s1 r"
    "\<forall>r. role (heap s' r) = role (heap s1 r)" by blast
  have "read_loop decode d (c # cs) (ReadFailed e) acc s = LoopThrown e s'"
    using s1 s'(1) by (simp add: case_prod_beta Let_def)
  moreover have "\<forall>r. role (heap s' r) = role (heap s r)"
    using s'(6) chunk_update_role [OF s1] by simp
  ultimately show ?case using s'(2-5) f1 by auto
qed

lemma catch_finally_notice:
  assumes "messages s1 = messages s @ [next_ref s]" and "next_ref s1 = Suc (next_ref s)"
    and "heap s1 (next_ref s) = new_message User (input s) (t_user env) None"
    and "\<forall>r<next_ref s. heap s1 r = heap s r"
    and "catch_finally env e s1 = Completed s'"
  shows "error_notice_appended env e s s'"
  using assms
  by (auto simp: error_notice_appended_def catch_finally_def append_message_def)

lemma handleSend_begin_shape:
  "messages (handleSend_begin env s s) = messages s @ [next_ref s] \<and>
   next_ref (handleSend_begin env s s) = Suc (next_ref s) \<and>
   heap (handleSend_begin env s s) (next_ref s) = new_message User (input s) (t_user env) None \<and>
   (\<forall>r<next_ref s. heap (handleSend_begin env s s) r = heap s r)"
  by (simp add: handleSend_begin_def append_message_def Let_def)

lemma handleSend_failure:
  assumes "\<not> handleSend_guard s" and "save_user env = None"
    and "thrown_message (fetch env) = Some e"
  shows "\<exists>s'. handleSend decode d env s s = Completed s' \<and> error_notice_appended env e s s'"
proof -
  let ?s1 = "handleSend_begin env s s"
  note b = handleSend_begin_shape [of env s]
  have run: "handleSend decode d env s s = handleSend_settle decode d env ?s1"
    using assms(1,2) by (simp add: handleSend_def Let_def)
  have simple: "handleSend_settle decode d env ?s1 = catch_finally env e ?s1 \<Longrightarrow> ?thesis"
  proof -
    assume a: "handleSend_settle decode d env ?s1 = catch_finally env e ?s1"
    obtain s' where s': "catch_finally env e ?s1 = Completed s'"
      by (simp add: catch_finally_def)
    from catch_finally_notice [of ?s1 s env e s'] b s'
    have "error_notice_appended env e s s'" by blast
    with run a s' show ?thesis by simp
  qed
  show ?thesis
  proof (cases "fetch env")
    case (FetchRejected x)
    with assms(3) show ?thesis by (intro simple) (simp add: handleSend_settle_def)
  next
    case (NotOk x)
    show ?thesis
    proof (cases x)
      case (Inl y)
      with NotOk assms(3) show ?thesis by (intro simple) (simp add: handleSend_settle_def)
    next
      case (Inr y)
      with NotOk assms(3) show ?thesis
        by (intro simple) (cases y; auto simp: handleSend_settle_def)
    qed
  next
    case NoBody
    with assms(3) show ?thesis by (intro simple) (auto simp: handleSend_settle_def)
  next
    case (Streaming chunks ending)
    with assms(3) have ending: "ending = ReadFailed e" by (cases ending) simp_all
    let ?am = "new_message Assistant [] (t_assistant env) (Some Normal)"
    let ?s2 = "append_message ?am ?s1"
    have m2: "messages ?s2 = messages s @ [next_ref s, Suc (next_ref s)]"
      and n2: "next_ref ?s2 = Suc (Suc (next_ref s))"
      and h2: "heap ?s2 (next_ref s) = new_message User (input s) (t_user env) None"
        "\<forall>r<next_ref s. heap ?s2 r = heap s r" "role (heap ?s2 (Suc (next_ref s))) = Assistant"
      using b by (simp_all add: append_message_def new_message_def)
    have ne: "messages ?s2 \<noteq> []" using m2 by simp
    from read_loop_ReadFailed [OF ne, of decode d chunks e "[]"] obtain s3 where
      s3: "read_loop decode d chunks (ReadFailed e) [] ?s2 = LoopThrown e s3"
      "messages s3 = messages ?s2" "next_ref s3 = next_ref ?s2"
      "\<forall>r. r \<noteq> last (messages ?s2) \<longrightarrow> heap s3 r = heap ?s2 r"
      "\<forall>r. role (heap s3 r) = role (heap ?s2 r)" by blast
    have l2: "last (messages ?s2) = Suc (next_ref s)" using m2 by simp
    obtain s' where s': "catch_finally env e s3 = Completed s'"
      by (simp add: catch_finally_def)
    have "handleSend_settle decode d env ?s1 = Completed s'"
      using Streaming ending s3(1) s' by (simp add: handleSend_settle_def Let_def)
    moreover have "error_notice_appended env e s s'"
      using s' s3(2-5) m2 n2 h2 l2
      by (auto simp: error_notice_appended_def catch_finally_def append_message_def)
    ultimately show ?thesis using run by simp
  qed
qed

lemma hist_handleSend_failure:
  assumes "\<not> (trim (hist_input h) = [] \<or> hist_loading h)"
    and "hist_thrown_message outcome = Some e"
  shows "hist_messages (hist_run g [HistSend t, HistSendArrives t2 t_err outcome] h) =
           hist_messages h @ [new_message User (hist_input h) t None, errorMessage e t_err] \<and>
         \<not> hist_loading (hist_run g [HistSend t, HistSendArrives t2 t_err outcome] h)"
proof -
  have r: "hist_reply t2 t_err outcome = errorMessage e t_err"
    using assms(2)
    by (cases outcome rule: hist_thrown_message.cases)
       (auto simp: hist_reply_def error_field_def split: if_splits option.splits)
  show ?thesis
    using assms(1) r
    by (simp add: hist_handleSend_begin_def hist_handleSend_arrive_def setMessages_frame Let_def)
qed

text \<open>
  Claim C6. When the completion request of a chat page fails (the fetch rejects, the
  response is not \<open>ok\<close> or carries an \<open>error\<close> field, the body is missing or cannot
  be read, the stream breaks off), the handler finishes normally: the user's message
  that it has appended stays in the array, followed by an assistant message of type
  \<open>normal\<close> whose content is "Sorry, I encountered an error: \<open>e\<close>. Please try again.",
  and nothing that was in the transcript before is changed or removed. On the streaming
  page a stream that breaks off leaves its partial assistant message between the two.
\<close>

theorem failed_request_keeps_transcript:
  assumes "\<not> handleSend_guard s" and "save_user env = None"
    and "thrown_message (fetch env) = Some e"
    and "\<not> (trim (hist_input h) = [] \<or> hist_loading h)"
    and "hist_thrown_message outcome = Some e'"
  shows "(\<exists>s'. handleSend decode d env s s = Completed s' \<and> error_notice_appended env e s s') \<and>
         hist_messages (hist_run g [HistSend t, HistSendArrives t2 t_err outcome] h) =
           hist_messages h @ [new_message User (hist_input h) t None, errorMessage e' t_err] \<and>
         \<not> hist_loading (hist_run g [HistSend t, HistSendArrives t2 t_err outcome] h)"
  using handleSend_failure [OF assms(1,2,3), of decode d]
    hist_handleSend_failure [OF assms(4,5), of g t t2 t_err]
  by blast

theorem failed_request_keeps_transcript_witness:
  "\<not> handleSend_guard (blank_page (js ''Hi'')) \<and>
   thrown_message (NotOk (Inr (Some (js ''Quota exceeded'')))) = Some (js ''Quota exceeded'') \<and>
   (\<exists>s'. handleSend ascii_decoder ()
           \<lparr>save_user = None, fetch = NotOk (Inr (Some (js ''Quota exceeded''))),
            save_ai = None, t_user = 1, t_assistant = 2, t_error = 3\<rparr>
           (blank_page (js ''Hi'')) (blank_page (js ''Hi'')) = Completed s' \<and>
         heap s' 0 = new_message User (js ''Hi'') 1 None \<and>
         heap s' (last (messages s')) = new_message Assistant
           (js ''Sorry, I encountered an error: Quota exceeded. Please try again.'') 3 (Some Normal)) \<and>
   hist_messages
     (hist_run echo_title [HistSend 1, HistSendArrives 2 3 (JsonThrows (js ''Unexpected token''))]
        ((fresh_history_page (js ''chat-1''))\<lparr>hist_input := js ''Hi''\<rparr>)) =
     [new_message User (js ''Hi'') 1 None,
      new_message Assistant
        (js ''Sorry, I encountered an error: Unexpected token. Please try again.'') 3 (Some Normal)]"
proof -
  let ?env = "\<lparr>save_user = None, fetch = NotOk (Inr (Some (js ''Quota exceeded''))),
            save_ai = None, t_user = 1, t_assistant = 2, t_error = 3\<rparr>"
  let ?s = "blank_page (js ''Hi'')"
  let ?h = "(fresh_history_page (js ''chat-1''))\<lparr>hist_input := js ''Hi''\<rparr>"
  have 1: "\<not> handleSend_guard ?s"
    by (simp add: handleSend_guard_def blank_page_def trim_def is_space_def is_line_terminator_def)
  have 2: "save_user ?env = None" by simp
  have 3: "thrown_message (fetch ?env) = Some (js ''Quota exceeded'')" by simp
  have 4: "\<not> (trim (hist_input ?h) = [] \<or> hist_loading ?h)"
    by (simp add: fresh_history_page_def trim_def is_space_def is_line_terminator_def)
  have 5: "hist_thrown_message (JsonThrows (js ''Unexpected token'')) = Some (js ''Unexpected token'')"
    by simp
  note T = failed_request_keeps_transcript [OF 1 2 3 4 5, of ascii_decoder "()" echo_title 1 2 3]
  from T obtain s' where s': "handleSend ascii_decoder () ?env ?s ?s = Completed s'"
    "error_notice_appended ?env (js ''Quota exceeded'') ?s s'" by blast
  from s'(2) have a: "heap s' 0 = new_message User (js ''Hi'') 1 None"
    "heap s' (last (messages s')) = new_message Assistant
       (js ''Sorry, I encountered an error: Quota exceeded. Please try again.'') 3 (Some Normal)"
    by (auto simp: error_notice_appended_def blank_page_def errorMessage_def)
  from T have b: "hist_messages
     (hist_run echo_title [HistSend 1, HistSendArrives 2 3 (JsonThrows (js ''Unexpected token''))] ?h) =
     [new_message User (js ''Hi'') 1 None,
      new_message Assistant
        (js ''Sorry, I encountered an error: Unexpected token. Please try again.'') 3 (Some Normal)]"
    by (simp add: fresh_history_page_def errorMessage_def)
  from 1 3 s'(1) a b show ?thesis by simp
qed




lemma route_passes:
  "createServerSupabaseClient env = None \<or> createServerSupabaseClient env = Some Session \<Longrightarrow>
     route default_message process env req = catch_500 default_message (process env req)"
  by (auto simp: route_def authenticate_def)

lemma route_unauthorized:
  "createServerSupabaseClient env = Some NoSession \<Longrightarrow>
     route default_message process env req = \<lparr>status = 401, body = ErrorBody (js ''Unauthorized'')\<rparr>"
  by (simp add: route_def authenticate_def catch_500_def)


lemma process_ignores_client:
  "exam_planner_process (env\<lparr>createServerSupabaseClient := c\<rparr>) req = exam_planner_process env req"
  "career_process (env\<lparr>createServerSupabaseClient := c\<rparr>) req = career_process env req"
  "two_min_concept_process (env\<lparr>createServerSupabaseClient := c\<rparr>) req =
     two_min_concept_process env req"
  "chat_process (env\<lparr>createServerSupabaseClient := c\<rparr>) req = chat_process env req"
  by (simp_all add: exam_planner_process_def career_process_def two_min_concept_process_def
      chat_process_def daysUntilExam_def Let_def
      cong: sum.case_cong option.case_cong json.case_cong if_cong)

text \<open>
  Claim C9. Each of the four routes (\<open>/api/exam-planner\<close>, \<open>/api/career\<close>,
  \<open>/api/chat/2min-concept\<close>, \<open>/api/chat\<close>) answers 401 \<open>Unauthorized\<close> when the
  client is configured and there is no session, whatever the body, which it has not
  read; without a configured client it processes the request, and its answer is the one
  a signed-in request gets; no route answers 401 in any other situation.
\<close>

theorem auth_only_when_configured:
  "(createServerSupabaseClient env = Some NoSession \<longrightarrow>
      exam_planner_POST env req = \<lparr>status = 401, body = ErrorBody (js ''Unauthorized'')\<rparr> \<and>
      career_POST env req = \<lparr>status = 401, body = ErrorBody (js ''Unauthorized'')\<rparr> \<and>
      two_min_concept_POST env req = \<lparr>status = 401, body = ErrorBody (js ''Unauthorized'')\<rparr> \<and>
      chat_POST env req = \<lparr>status = 401, body = ErrorBody (js ''Unauthorized'')\<rparr>) \<and>
   (createServerSupabaseClient env = None \<longrightarrow>
      exam_planner_POST env req =
        catch_500 (js ''Failed to generate study plan'') (exam_planner_process env req) \<and>
      career_POST env req =
        catch_500 (js ''Failed to generate roadmap'') (career_process env req) \<and>
      two_min_concept_POST env req =
        catch_500 (js ''Failed to generate 2-minute concept'') (two_min_concept_process env req) \<and>
      chat_POST env req =
        catch_500 (js ''Failed to get AI response'') (chat_process env req)) \<and>
   exam_planner_POST (env\<lparr>createServerSupabaseClient := None\<rparr>) req =
     exam_planner_POST (env\<lparr>createServerSupabaseClient := Some Session\<rparr>) req \<and>
   career_POST (env\<lparr>createServerSupabaseClient := None\<rparr>) req =
     career_POST (env\<lparr>createServerSupabaseClient := Some Session\<rparr>) req \<and>
   two_min_concept_POST (env\<lparr>createServerSupabaseClient := None\<rparr>) req =
     two_min_concept_POST (env\<lparr>createServerSupabaseClient := Some Session\<rparr>) req \<and>
   chat_POST (env\<lparr>createServerSupabaseClient := None\<rparr>) req =
     chat_POST (env\<lparr>createServerSupabaseClient := Some Session\<rparr>) req \<and>
   (status (exam_planner_POST env req) = 401 \<or> status (career_POST env req) = 401 \<or>
    status (two_min_concept_POST env req) = 401 \<or> status (chat_POST env req) = 401 \<longrightarrow>
      createServerSupabaseClient env = Some NoSession)"
proof (intro conjI impI)
  assume a: "createServerSupabaseClient env = Some NoSession"
  show "exam_planner_POST env req = \<lparr>status = 401, body = ErrorBody (js ''Unauthorized'')\<rparr>"
    unfolding exam_planner_POST_def by (rule route_unauthorized [OF a])
  show "career_POST env req = \<lparr>status = 401, body = ErrorBody (js ''Unauthorized'')\<rparr>"
    unfolding career_POST_def by (rule route_unauthorized [OF a])
  show "two_min_concept_POST env req = \<lparr>status = 401, body = ErrorBody (js ''Unauthorized'')\<rparr>"
    unfolding two_min_concept_POST_def by (rule route_unauthorized [OF a])
  show "chat_POST env req = \<lparr>status = 401, body = ErrorBody (js ''Unauthorized'')\<rparr>"
    unfolding chat_POST_def by (rule route_unauthorized [OF a])
next
  assume a: "createServerSupabaseClient env = None"
  then have p: "createServerSupabaseClient env = None \<or> createServerSupabaseClient env = Some Session"
    by simp
  show "exam_planner_POST env req =
        catch_500 (js ''Failed to generate study plan'') (exam_planner_process env req)"
    unfolding exam_planner_POST_def by (rule route_passes [OF p])
  show "career_POST env req =
        catch_500 (js ''Failed to generate roadmap'') (career_process env req)"
    unfolding career_POST_def by (rule route_passes [OF p])
  show "two_min_concept_POST env req =
        catch_500 (js ''Failed to generate 2-minute concept'') (two_min_concept_process env req)"
    unfolding two_min_concept_POST_def by (rule route_passes [OF p])
  show "chat_POST env req =
        catch_500 (js ''Failed to get AI response'') (chat_process env req)"
    unfolding chat_POST_def by (rule route_passes [OF p])
next
  show "exam_planner_POST (env\<lparr>createServerSupabaseClient := None\<rparr>) req =
     exam_planner_POST (env\<lparr>createServerSupabaseClient := Some Session\<rparr>) req"
    by (simp add: exam_planner_POST_def route_passes process_ignores_client)
  show "career_POST (env\<lparr>createServerSupabaseClient := None\<rparr>) req =
     career_POST (env\<lparr>createServerSupabaseClient := Some Session\<rparr>) req"
    by (simp add: career_POST_def route_passes process_ignores_client)
  show "two_min_concept_POST (env\<lparr>createServerSupabaseClient := None\<rparr>) req =
     two_min_concept_POST (env\<lparr>createServerSupabaseClient := Some Session\<rparr>) req"
    by (simp add: two_min_concept_POST_def route_passes process_ignores_client)
  show "chat_POST (env\<lparr>createServerSupabaseClient := None\<rparr>) req =
     chat_POST (env\<lparr>createServerSupabaseClient := Some Session\<rparr>) req"
    by (simp add: chat_POST_def route_passes process_ignores_client)
next
  assume a: "status (exam_planner_POST env req) = 401 \<or> status (career_POST env req) = 401 \<or>
    status (two_min_concept_POST env req) = 401 \<or> status (chat_POST env req) = 401"
  show "createServerSupabaseClient env = Some NoSession"
  proof (rule ccontr)
    assume n: "createServerSupabaseClient env \<noteq> Some NoSession"
    have c: "status (catch_500 m r) = 401 \<Longrightarrow> \<exists>res. r = Inr res \<and> status res = 401" for m r
      by (cases r) (auto simp: catch_500_def)
    have e: "exam_planner_process env req = Inr res \<Longrightarrow> status res \<noteq> 401" for res
      by (auto simp: exam_planner_process_def Let_def
          split: sum.splits if_splits option.splits json.splits)
    have k: "career_process env req = Inr res \<Longrightarrow> status res \<noteq> 401" for res
      by (auto simp: career_process_def Let_def split: sum.splits if_splits)
    have t: "two_min_concept_process env req = Inr res \<Longrightarrow> status res \<noteq> 401" for res
      by (auto simp: two_min_concept_process_def Let_def
          split: sum.splits if_splits option.splits json.splits)
    have h: "chat_process env req = Inr res \<Longrightarrow> status res \<noteq> 401" for res
      by (auto simp: chat_process_def Let_def
          split: sum.splits if_splits option.splits json.splits)
    have r: "status (route m process env req) = 401 \<Longrightarrow>
               \<exists>res. process env req = Inr res \<and> status res = 401" for m process
    proof (cases "createServerSupabaseClient env")
      case None
      assume "status (route m process env req) = 401"
      with None c [of m "process env req"] show ?thesis by (simp add: route_passes)
    next
      case (Some x)
      assume s: "status (route m process env req) = 401"
      show ?thesis
      proof (cases x)
        case Session
        with Some s c [of m "process env req"] show ?thesis by (simp add: route_passes)
      next
        case NoSession
        with Some n show ?thesis by simp
      next
        case (GetSessionThrows y)
        with Some s show ?thesis by (simp add: route_def authenticate_def catch_500_def)
      qed
    qed
    from a r e k t h show False
      unfolding exam_planner_POST_def career_POST_def two_min_concept_POST_def chat_POST_def
      by blast
  qed
qed

lemmas route_eval = exam_planner_POST_def route_def authenticate_def catch_500_def
  exam_planner_process_def destructure_def daysUntilExam_def local_midnight_def ceil_div_def
  subjectsList_def test_server_def exam_request_def Let_def

theorem auth_only_when_configured_witness:
  "exam_planner_POST (test_server (Some NoSession)) (exam_request (js ''1736899200000'')) =
     \<lparr>status = 401, body = ErrorBody (js ''Unauthorized'')\<rparr> \<and>
   chat_POST (test_server (Some NoSession)) (Malformed (js ''Unexpected end of JSON input'')) =
     \<lparr>status = 401, body = ErrorBody (js ''Unauthorized'')\<rparr> \<and>
   exam_planner_POST (test_server None) (exam_request (js ''1736899200000'')) =
     \<lparr>status = 200, body = PlanBody (js ''Day 1: Math'')\<rparr> \<and>
   chat_POST (test_server None) (Malformed (js ''Unexpected end of JSON input'')) =
     \<lparr>status = 500, body = ErrorBody (js ''Unexpected end of JSON input'')\<rparr>"
proof -
  have c: "createServerSupabaseClient (test_server (Some NoSession)) = Some NoSession"
    "createServerSupabaseClient (test_server None) = None"
    by (simp_all add: test_server_def)
  note A = auth_only_when_configured [of "test_server (Some NoSession)"
      "exam_request (js ''1736899200000'')"]
  note B = auth_only_when_configured [of "test_server (Some NoSession)"
      "Malformed (js ''Unexpected end of JSON input'')"]
  note C = auth_only_when_configured [of "test_server None" "exam_request (js ''1736899200000'')"]
  note D = auth_only_when_configured [of "test_server None"
      "Malformed (js ''Unexpected end of JSON input'')"]
  from A c(1) have 1: "exam_planner_POST (test_server (Some NoSession))
      (exam_request (js ''1736899200000'')) = \<lparr>status = 401, body = ErrorBody (js ''Unauthorized'')\<rparr>"
    by blast
  from B c(1) have 2: "chat_POST (test_server (Some NoSession))
      (Malformed (js ''Unexpected end of JSON input'')) =
      \<lparr>status = 401, body = ErrorBody (js ''Unauthorized'')\<rparr>"
    by blast
  from C c(2) have "exam_planner_POST (test_server None) (exam_request (js ''1736899200000'')) =
      catch_500 (js ''Failed to generate study plan'')
        (exam_planner_process (test_server None) (exam_request (js ''1736899200000'')))"
    by blast
  also have "\<dots> = \<lparr>status = 200, body = PlanBody (js ''Day 1: Math'')\<rparr>"
    by (simp add: route_eval)
  finally have 3: "exam_planner_POST (test_server None) (exam_request (js ''1736899200000'')) =
      \<lparr>status = 200, body = PlanBody (js ''Day 1: Math'')\<rparr>" .
  from D c(2) have "chat_POST (test_server None) (Malformed (js ''Unexpected end of JSON input'')) =
      catch_500 (js ''Failed to get AI response'')
        (chat_process (test_server None) (Malformed (js ''Unexpected end of JSON input'')))"
    by blast
  also have "\<dots> = \<lparr>status = 500, body = ErrorBody (js ''Unexpected end of JSON input'')\<rparr>"
    by (simp add: chat_process_def destructure_def catch_500_def)
  finally have 4: "chat_POST (test_server None) (Malformed (js ''Unexpected end of JSON input'')) =
      \<lparr>status = 500, body = ErrorBody (js ''Unexpected end of JSON input'')\<rparr>" .
  from 1 2 3 4 show ?thesis by (intro conjI)
qed



section \<open>Properties of the reset controller\<close>

lemma apply_later_closed:
  "snapshotBeforeReset s = None \<Longrightarrow> apply_later x s = s"
  by (cases x) (simp_all add: undo_def dismiss_def expire_def)

lemma run_later_closed:
  "snapshotBeforeReset s = None \<Longrightarrow> run_later xs s = s"
  by (induction xs) (simp_all add: apply_later_closed)

lemma undo_after_reset:
  assumes "now' < now + timeout"
  shows "undo now' (reset now timeout b s) =
           s\<lparr>current := current s, snapshotBeforeReset := None,
             undoDeadline := now + timeout,
             onReset_calls := onReset_calls s @ [b, current s]\<rparr>"
  using assms by (simp add: undo_def reset_def expire_def)

text \<open>
  Claim C4. For every state with current value \<open>A\<close> and every reset value \<open>B\<close>:
  \<open>reset(B)\<close> followed by \<open>undo()\<close> before the deadline restores the current value
  \<open>A\<close>, closes the window and has invoked \<open>onReset\<close> with \<open>B\<close> and then with \<open>A\<close>;
  \<open>reset(B)\<close> followed by \<open>dismiss()\<close> leaves the current value \<open>B\<close> with the
  window closed, and from then on no sequence of \<open>undo\<close>, \<open>dismiss\<close> and expiry
  steps, at whatever times, changes the state again: \<open>A\<close> is not recoverable.
\<close>

theorem reset_undo_dismiss:
  fixes s :: "'a ResettableState" and B :: 'a
  assumes "now' < now + timeout"
  shows "current (undo now' (reset now timeout B s)) = current s \<and>
         snapshotBeforeReset (undo now' (reset now timeout B s)) = None \<and>
         onReset_calls (undo now' (reset now timeout B s)) = onReset_calls s @ [B, current s] \<and>
         current (dismiss (reset now timeout B s)) = B \<and>
         \<not> window_open (dismiss (reset now timeout B s)) t \<and>
         run_later ops (dismiss (reset now timeout B s)) = dismiss (reset now timeout B s)"
proof -
  have "run_later ops (dismiss (reset now timeout B s)) = dismiss (reset now timeout B s)"
    by (rule run_later_closed) (simp add: dismiss_def)
  moreover have "current (dismiss (reset now timeout B s)) = B"
    by (simp add: dismiss_def reset_def)
  moreover have "\<not> window_open (dismiss (reset now timeout B s)) t"
    by (simp add: dismiss_def window_open_def)
  ultimately show ?thesis
    by (simp add: undo_after_reset [OF assms])
qed

theorem reset_undo_dismiss_witness:
  "(4000::int) < 1000 + 10000 \<and>
   current (undo 4000 (reset 1000 10000 (2::nat)
     \<lparr>current = 1, snapshotBeforeReset = None, undoDeadline = 0, onReset_calls = []\<rparr>)) = 1 \<and>
   onReset_calls (undo 4000 (reset 1000 10000 (2::nat)
     \<lparr>current = 1, snapshotBeforeReset = None, undoDeadline = 0, onReset_calls = []\<rparr>)) = [2, 1] \<and>
   current (run_later [Undo 2000, Expire 20000, Undo 30000] (dismiss (reset 1000 10000 (2::nat)
     \<lparr>current = 1, snapshotBeforeReset = None, undoDeadline = 0, onReset_calls = []\<rparr>))) = 2"
proof -
  have h: "(4000::int) < 1000 + 10000" by simp
  show ?thesis
    using h reset_undo_dismiss [OF h, of "2::nat"
      "\<lparr>current = 1, snapshotBeforeReset = None, undoDeadline = 0, onReset_calls = []\<rparr>"
      0 "[Undo 2000, Expire 20000, Undo 30000]"]
    by (simp add: dismiss_def reset_def)
qed

end
